theory Spec2Isabelle
  imports Complex_Main "HOL-Library.Word"
begin

section \<open>ButtonHandler: debounce and press classification\<close>

text \<open>
  Embedding of \<^verbatim>\<open>src/hal/ButtonHandler/ButtonHandler.h\<close> and of the types of
  \<^verbatim>\<open>IButtonHandler.h\<close>. The handler keeps one array per field, each of the
  template length \<open>N\<close>; they are lists here (named as the members, without the trailing
  underscore), and \<open>N\<close> is the length of the pin array.
  Timestamps are \<^verbatim>\<open>uint32_t\<close>: subtraction wraps around, comparison is unsigned.
  The two things \<^verbatim>\<open>update()\<close> reads from the platform, \<^verbatim>\<open>millis()\<close> and the
  result of \<^verbatim>\<open>read_func_\<close> for each pin, are parameters of the model.
\<close>

datatype ButtonPressType = None_press | Short | Long

record ButtonTimingConfig =
  debounce_ms :: "32 word"
  short_press_ms :: "32 word"
  long_press_ms :: "32 word"

definition default_timing :: ButtonTimingConfig where
  "default_timing = \<lparr>debounce_ms = 30, short_press_ms = 200, long_press_ms = 1000\<rparr>"

record ButtonHandler =
  pins :: "8 word list"
  last_state :: "bool list"
  last_state_change :: "32 word list"
  press_start :: "32 word list"
  event :: "ButtonPressType list"
  timing :: ButtonTimingConfig

definition N :: "ButtonHandler \<Rightarrow> nat" where
  "N s = length (pins s)"

text \<open>
  The constructor. \<^verbatim>\<open>static_assert(N > 0)\<close> rejects an empty pin array at compile
  time, so no handler exists for it.
\<close>

definition ButtonHandler_init :: "8 word list \<Rightarrow> ButtonTimingConfig \<Rightarrow> ButtonHandler option" where
  "ButtonHandler_init buttonPins tm =
     (if buttonPins = [] then None
      else Some \<lparr>pins = buttonPins,
                 last_state = replicate (length buttonPins) False,
                 last_state_change = replicate (length buttonPins) 0,
                 press_start = replicate (length buttonPins) 0,
                 event = replicate (length buttonPins) None_press,
                 timing = tm\<rparr>)"

text \<open>The classification of a release of duration \<open>duration\<close> (lines 89 to 95).\<close>

definition classify :: "ButtonTimingConfig \<Rightarrow> 32 word \<Rightarrow> ButtonPressType" where
  "classify tm duration =
     (if duration \<ge> long_press_ms tm then Long
      else if duration \<ge> short_press_ms tm then Short
      else None_press)"

text \<open>The body of the loop of \<^verbatim>\<open>update()\<close> for button \<open>i\<close>.\<close>

definition update_button :: "(8 word \<Rightarrow> bool) \<Rightarrow> 32 word \<Rightarrow> nat \<Rightarrow> ButtonHandler \<Rightarrow> ButtonHandler" where
  "update_button read_func now i s =
     (let pressed = read_func (pins s ! i) in
      if pressed \<noteq> last_state s ! i then
        if now - last_state_change s ! i \<ge> debounce_ms (timing s) then
          let s1 = s\<lparr>last_state_change := (last_state_change s)[i := now],
                      last_state := (last_state s)[i := pressed]\<rparr>
          in if pressed then s1\<lparr>press_start := (press_start s1)[i := now]\<rparr>
             else s1\<lparr>event := (event s1)[i := classify (timing s1) (now - press_start s1 ! i)],
                     press_start := (press_start s1)[i := 0]\<rparr>
        else s
      else s)"

text \<open>\<^verbatim>\<open>update()\<close>: the loop \<^verbatim>\<open>for (i = 0; i < N; ++i)\<close>.\<close>

definition update :: "(8 word \<Rightarrow> bool) \<Rightarrow> 32 word \<Rightarrow> ButtonHandler \<Rightarrow> ButtonHandler" where
  "update read_func now s = fold (update_button read_func now) [0..<N s] s"

definition isPressed :: "8 word \<Rightarrow> ButtonHandler \<Rightarrow> bool" where
  "isPressed buttonId s = (if unat buttonId \<ge> N s then False else last_state s ! unat buttonId)"

text \<open>\<^verbatim>\<open>getPressType\<close> returns the event and the handler with the event consumed.\<close>

definition getPressType :: "8 word \<Rightarrow> ButtonHandler \<Rightarrow> ButtonPressType \<times> ButtonHandler" where
  "getPressType buttonId s =
     (if unat buttonId \<ge> N s then (None_press, s)
      else (event s ! unat buttonId, s\<lparr>event := (event s)[unat buttonId := None_press]\<rparr>))"

text \<open>A sequence of scans, each with its clock value and its raw readings.\<close>

fun scans :: "(32 word \<times> (8 word \<Rightarrow> bool)) list \<Rightarrow> ButtonHandler \<Rightarrow> ButtonHandler" where
  "scans [] s = s"
| "scans ((now, read_func) # rest) s = scans rest (update read_func now s)"

text \<open>Every array has the template length.\<close>

definition wf_handler :: "ButtonHandler \<Rightarrow> bool" where
  "wf_handler s \<longleftrightarrow>
     0 < N s \<and> length (last_state s) = N s \<and> length (last_state_change s) = N s \<and>
     length (press_start s) = N s \<and> length (event s) = N s"

text \<open>Raw readings used in concrete scenarios: every button pressed, every button released.\<close>

definition all_pressed :: "8 word \<Rightarrow> bool" where
  "all_pressed pin = True"

definition all_released :: "8 word \<Rightarrow> bool" where
  "all_released pin = False"

text \<open>The four per-button fields of the handler at index \<open>i\<close>.\<close>

definition channel :: "ButtonHandler \<Rightarrow> nat \<Rightarrow> bool \<times> 32 word \<times> 32 word \<times> ButtonPressType" where
  "channel s i = (last_state s ! i, last_state_change s ! i, press_start s ! i, event s ! i)"

text \<open>The handler of \<^verbatim>\<open>main.cpp\<close>: one button on pin 7, timing 30 / 200 / 1000 ms.\<close>

definition demo_handler :: ButtonHandler where
  "demo_handler = \<lparr>pins = [7], last_state = [False], last_state_change = [0],
     press_start = [0], event = [None_press], timing = default_timing\<rparr>"

section \<open>HBridgeMotor: drive, brake and soft-brake dither\<close>

subsection \<open>Floating point\<close>

text \<open>
  \<^verbatim>\<open>float\<close> and \<^verbatim>\<open>double\<close> are IEEE 754 binary32 and binary64 under
  round-to-nearest, ties-to-even. A floating-point value is the real number it denotes, and
  every arithmetic operation of the source is the exact operation followed by the rounding
  \<open>fl p emax\<close> to \<open>p\<close> significant bits: \<open>binade\<close> finds the exponent \<open>e\<close> with
  \<^verbatim>\<open>2^e <= |x| < 2^(e+1)\<close>, searching at most \<open>emax\<close> steps up or down from 0, and
  \<open>round_even\<close> rounds \<^verbatim>\<open>|x| / 2^(e-p+1)\<close> to the nearest integer, a tie to the even one.
  This is IEEE rounding on the normal range, which holds every value the driver computes
  (duties between 0 and 101, levels between 0 and 1, periods of at most a million
  microseconds in absolute value); subnormals, infinities and NaN are not modelled.
  Conversions of the driver's integers to \<^verbatim>\<open>float\<close> or \<^verbatim>\<open>double\<close> are exact: a 16-bit
  duty has fewer than 24 bits, an \<^verbatim>\<open>int\<close> frequency fewer than 53.
\<close>

definition round_even :: "real \<Rightarrow> int" where
  "round_even r =
     (let f = \<lfloor>r\<rfloor>; d = r - of_int f in
      if d < 1 / 2 then f else if 1 / 2 < d then f + 1 else if even f then f else f + 1)"

fun binade :: "nat \<Rightarrow> real \<Rightarrow> int" where
  "binade 0 x = 0"
| "binade (Suc n) x =
     (if x < 1 then binade n (2 * x) - 1 else if 2 \<le> x then binade n (x / 2) + 1 else 0)"

definition fl :: "nat \<Rightarrow> nat \<Rightarrow> real \<Rightarrow> real" where
  "fl p emax x =
     (if x = 0 then 0
      else let e = binade emax \<bar>x\<bar>; q = 2 powi (e - int p + 1)
           in sgn x * (of_int (round_even (\<bar>x\<bar> / q)) * q))"

definition f32 :: "real \<Rightarrow> real" where
  "f32 = fl 24 149"

definition f64 :: "real \<Rightarrow> real" where
  "f64 = fl 53 1074"

text \<open>\<^verbatim>\<open>static_cast<int64_t>\<close> of a finite double in range: truncation towards zero.\<close>

definition trunc :: "real \<Rightarrow> int" where
  "trunc r = (if 0 \<le> r then \<lfloor>r\<rfloor> else \<lceil>r\<rceil>)"

text \<open>\<^verbatim>\<open>MathFns::clamp\<close> (\<^verbatim>\<open>src/utils/MathFns/MathFns.h\<close>).\<close>

definition clamp :: "'a::linorder \<Rightarrow> 'a \<Rightarrow> 'a \<Rightarrow> 'a" where
  "clamp v low high = (if v < low then low else if v > high then high else v)"

subsection \<open>Types of \<^verbatim>\<open>IMotorDriver.h\<close> and \<^verbatim>\<open>app_config.h\<close>\<close>

datatype FreewheelMode = HiZ | HiZ_Awake | DitherBrake

record MotorBehaviorConfig =
  freewheel_mode :: FreewheelMode
  soft_brake_hz :: int
  dither_pwm :: "16 word"

text \<open>The default member initialisers of \<^verbatim>\<open>MotorBehaviorConfig\<close>.\<close>

definition default_behavior :: MotorBehaviorConfig where
  "default_behavior = \<lparr>freewheel_mode = HiZ, soft_brake_hz = 300, dither_pwm = 30\<rparr>"

datatype Dir = CW | CCW

text \<open>
  \<^verbatim>\<open>MotorMCPWMConfig\<close>: the two PWM pins are \<^verbatim>\<open>uint8_t\<close>, the enable pin is
  \<^verbatim>\<open>int8_t\<close> (read with \<open>sint\<close>; negative means unused). The MCPWM unit, timer and
  signal selectors are handed to the peripheral unchanged and play no part in the driver's
  logic; the model has the one peripheral with its operators A and B.
\<close>

record MotorMCPWMConfig =
  cfg_lpwm_pin :: "8 word"
  cfg_rpwm_pin :: "8 word"
  cfg_en_pin :: "8 word"

subsection \<open>The driver object and the platform it drives\<close>

datatype BrakePhase = Coast | Brake

datatype fault = EspErrorAbort | FloatToIntUndefined

datatype mcpwm_operator = MCPWM_OPR_A | MCPWM_OPR_B

datatype hw_call =
    DigitalWrite int bool
  | McpwmSetDuty mcpwm_operator real
  | TimerStartOnce int
  | TimerStop

text \<open>
  The members of \<^verbatim>\<open>HBridgeMotor\<close> (the trailing underscore of the source names is
  dropped), followed by the state of the platform the driver owns: the duty last written to
  each MCPWM operator, the delay of the pending one-shot timer if one is armed, and the log
  of the calls made to the platform, in order. \<open>soft_timer\<close> tells whether the timer handle
  has been created.
\<close>

record HBridgeMotor =
  lpwm_pin :: int
  rpwm_pin :: int
  en_pin :: int
  use_en :: bool
  en_state :: bool
  soft_brake_pwm :: "16 word"
  beh :: MotorBehaviorConfig
  soft_timer :: bool
  soft_active :: bool
  soft_phase :: BrakePhase
  soft_level :: real
  soft_hz :: int
  soft_us_brake :: int
  soft_us_coast :: int
  duty_A :: real
  duty_B :: real
  timer_armed :: "int option"
  hw_log :: "hw_call list"

definition kBitRes :: nat where
  "kBitRes = 10"

definition kPwmMaxInput :: int where
  "kPwmMaxInput = 2 ^ kBitRes - 1"

definition kDefaultBrake :: int where
  "kDefaultBrake = 50"

definition kMicrosPerSec :: real where
  "kMicrosPerSec = 1000000"

definition kMinPhaseUs :: int where
  "kMinPhaseUs = 1500"

text \<open>\<^verbatim>\<open>percent_per_count_ = 100.0f / kPwmMaxInput_\<close>, a \<^verbatim>\<open>float\<close> division.\<close>

definition percent_per_count :: real where
  "percent_per_count = f32 (100 / real_of_int kPwmMaxInput)"

text \<open>The object as its default member initialisers leave it, before \<^verbatim>\<open>setup\<close>.\<close>

definition HBridgeMotor_new :: HBridgeMotor where
  "HBridgeMotor_new =
     \<lparr>lpwm_pin = - 1, rpwm_pin = - 1, en_pin = - 1, use_en = False, en_state = False,
      soft_brake_pwm = word_of_int kDefaultBrake, beh = default_behavior,
      soft_timer = False, soft_active = False, soft_phase = Coast, soft_level = 0,
      soft_hz = 300, soft_us_brake = 0, soft_us_coast = 0,
      duty_A = 0, duty_B = 0, timer_armed = None, hw_log = []\<rparr>"

subsection \<open>Private helpers\<close>

definition setEnable :: "bool \<Rightarrow> HBridgeMotor \<Rightarrow> HBridgeMotor" where
  "setEnable on s =
     (if use_en s \<and> en_state s \<noteq> on
      then s\<lparr>en_state := on, hw_log := hw_log s @ [DigitalWrite (en_pin s) on]\<rparr>
      else s)"

definition writeAB :: "real \<Rightarrow> real \<Rightarrow> HBridgeMotor \<Rightarrow> HBridgeMotor" where
  "writeAB a_percent b_percent s =
     s\<lparr>duty_A := a_percent, duty_B := b_percent,
       hw_log := hw_log s @ [McpwmSetDuty MCPWM_OPR_A a_percent, McpwmSetDuty MCPWM_OPR_B b_percent]\<rparr>"

text \<open>
  \<^verbatim>\<open>esp_timer_stop\<close> cancels the pending one-shot, if any; its error code is ignored
  by the source.
\<close>

definition stopSoftBrake :: "HBridgeMotor \<Rightarrow> HBridgeMotor" where
  "stopSoftBrake s =
     (if soft_active s
      then s\<lparr>timer_armed := None, soft_active := False, hw_log := hw_log s @ [TimerStop]\<rparr>
      else s)"

text \<open>
  \<^verbatim>\<open>recomputeSoftDurations\<close>. With \<^verbatim>\<open>soft_hz_ == 0\<close> the period is infinite and its
  conversion to \<^verbatim>\<open>int64_t\<close> is undefined; for every other \<^verbatim>\<open>int\<close> frequency the
  period is at most a million in absolute value and the conversions are defined.
\<close>

definition recomputeSoftDurations :: "HBridgeMotor \<Rightarrow> fault + HBridgeMotor" where
  "recomputeSoftDurations s =
     (let level = clamp (f32 (real (unat (soft_brake_pwm s)) / real_of_int kPwmMaxInput)) 0 1 in
      if soft_hz s = 0 then Inl FloatToIntUndefined
      else
        let period_us = f64 (kMicrosPerSec / real_of_int (soft_hz s));
            us_brake = trunc (f64 (period_us * level));
            us_coast = trunc period_us - us_brake;
            us_brake' = (if us_brake < kMinPhaseUs \<and> us_brake > 0 then kMinPhaseUs else us_brake);
            us_coast' = (if us_coast < kMinPhaseUs \<and> us_coast > 0 then kMinPhaseUs else us_coast)
        in Inr (s\<lparr>soft_level := level, soft_us_brake := us_brake', soft_us_coast := us_coast'\<rparr>))"

definition applyPhase :: "BrakePhase \<Rightarrow> HBridgeMotor \<Rightarrow> HBridgeMotor" where
  "applyPhase p s =
     (case p of
        Brake \<Rightarrow> writeAB 100 100 (setEnable True s)
      | Coast \<Rightarrow> writeAB 0 0 s)"

text \<open>
  \<^verbatim>\<open>scheduleNextPhase\<close>. \<^verbatim>\<open>esp_timer_start_once\<close> fails on a handle that was never
  created and on a timer that is already armed, and \<^verbatim>\<open>ESP_ERROR_CHECK\<close> then aborts.
\<close>

definition scheduleNextPhase :: "HBridgeMotor \<Rightarrow> fault + HBridgeMotor" where
  "scheduleNextPhase s =
     (if \<not> soft_active s then Inr s
      else
        let dur_us = (if soft_phase s = Brake then soft_us_brake s else soft_us_coast s);
            use_us = (if dur_us < kMinPhaseUs then kMinPhaseUs else dur_us)
        in if \<not> soft_timer s \<or> timer_armed s \<noteq> None then Inl EspErrorAbort
           else Inr (s\<lparr>timer_armed := Some use_us, hw_log := hw_log s @ [TimerStartOnce use_us]\<rparr>))"

definition softBrakeISR :: "HBridgeMotor \<Rightarrow> fault + HBridgeMotor" where
  "softBrakeISR s =
     (let s1 = s\<lparr>soft_phase := (if soft_phase s = Coast then Brake else Coast)\<rparr>
      in scheduleNextPhase (applyPhase (soft_phase s1) s1))"

text \<open>
  The one-shot timer of the platform: when an armed delay elapses the timer is no longer
  armed and the callback registered by \<^verbatim>\<open>setup\<close>, \<^verbatim>\<open>softBrakeISR\<close>, runs once. With
  no timer armed no callback runs.
\<close>

definition timer_fires :: "HBridgeMotor \<Rightarrow> fault + HBridgeMotor" where
  "timer_fires s =
     (case timer_armed s of
        None \<Rightarrow> Inr s
      | Some d \<Rightarrow> softBrakeISR (s\<lparr>timer_armed := None\<rparr>))"

subsection \<open>Public operations\<close>

definition setHardBrake :: "HBridgeMotor \<Rightarrow> HBridgeMotor" where
  "setHardBrake s = writeAB 100 100 (setEnable True (stopSoftBrake s))"

definition setSoftBrakePWM :: "16 word \<Rightarrow> HBridgeMotor \<Rightarrow> fault + HBridgeMotor" where
  "setSoftBrakePWM pwm s =
     (let s1 = s\<lparr>soft_brake_pwm := word_of_int (clamp (uint pwm) 0 kPwmMaxInput)\<rparr>
      in if soft_active s1 then recomputeSoftDurations s1 else Inr s1)"

text \<open>
  \<^verbatim>\<open>setFreewheel\<close> and \<^verbatim>\<open>startSoftBrake\<close> call each other. The first argument is the
  number of nested calls still allowed: the result is \<open>None\<close> when the calls nest deeper,
  and a call that returns \<open>None\<close> for every bound never returns.
\<close>

fun setFreewheel :: "nat \<Rightarrow> HBridgeMotor \<Rightarrow> (fault + HBridgeMotor) option"
  and startSoftBrake :: "nat \<Rightarrow> HBridgeMotor \<Rightarrow> (fault + HBridgeMotor) option" where
  "setFreewheel 0 s = None"
| "setFreewheel (Suc n) s =
     (let s1 = stopSoftBrake s in
      case freewheel_mode (beh s1) of
        HiZ \<Rightarrow> Some (Inr (writeAB 0 0 (setEnable False s1)))
      | HiZ_Awake \<Rightarrow> Some (Inr (writeAB 0 0 (setEnable True s1)))
      | DitherBrake \<Rightarrow>
          (case setSoftBrakePWM (dither_pwm (beh s1)) s1 of
             Inl f \<Rightarrow> Some (Inl f)
           | Inr s2 \<Rightarrow> startSoftBrake n s2))"
| "startSoftBrake 0 s = None"
| "startSoftBrake (Suc n) s =
     (case recomputeSoftDurations s of
        Inl f \<Rightarrow> Some (Inl f)
      | Inr s1 \<Rightarrow>
          if soft_level s1 \<le> f32 (1 / 1000) then setFreewheel n (stopSoftBrake s1)
          else if soft_level s1 \<ge> f32 (999 / 1000) then
            Some (Inr (writeAB 100 100 (setEnable True (stopSoftBrake s1))))
          else
            let period_us = f64 (kMicrosPerSec / real_of_int (soft_hz s1));
                us_brake = trunc (f64 (period_us * soft_level s1));
                s2 = s1\<lparr>soft_us_brake := us_brake, soft_us_coast := trunc period_us - us_brake\<rparr>
            in if \<not> soft_active s2 then
                 (let s3 = s2\<lparr>soft_phase := Coast, soft_active := True\<rparr>
                  in Some (scheduleNextPhase (applyPhase (soft_phase s3) s3)))
               else Some (Inr s2))"

definition setSpeed :: "nat \<Rightarrow> int \<Rightarrow> Dir \<Rightarrow> HBridgeMotor \<Rightarrow> (fault + HBridgeMotor) option" where
  "setSpeed n speed dir s =
     (let clamped = (word_of_int (clamp speed 0 kPwmMaxInput) :: 16 word) in
      if clamped = 0 then startSoftBrake n s
      else
        let s1 = setEnable True (stopSoftBrake s);
            duty = f32 (real (unat clamped) * percent_per_count)
        in Some (Inr (case dir of CW \<Rightarrow> writeAB duty 0 s1 | CCW \<Rightarrow> writeAB 0 duty s1)))"

text \<open>
  \<^verbatim>\<open>setup(cfg, beh)\<close>, named \<open>setup_cfg_beh\<close> here, and \<^verbatim>\<open>setup(cfg)\<close>, named
  \<open>setup_cfg\<close>. The outcome of each checked call into ESP-IDF is a parameter; a failed
  one aborts. \<^verbatim>\<open>mcpwm_init\<close> starts both operators at the configured compare values,
  0 percent.
\<close>

record init_results =
  gpio_init_l_ok :: bool
  gpio_init_r_ok :: bool
  mcpwm_init_ok :: bool
  duty_type_a_ok :: bool
  duty_type_b_ok :: bool
  timer_create_ok :: bool

definition setup_cfg_beh ::
    "init_results \<Rightarrow> MotorMCPWMConfig \<Rightarrow> MotorBehaviorConfig \<Rightarrow> HBridgeMotor \<Rightarrow> fault + HBridgeMotor" where
  "setup_cfg_beh r cfg b s =
     (let s1 = s\<lparr>lpwm_pin := uint (cfg_lpwm_pin cfg), rpwm_pin := uint (cfg_rpwm_pin cfg),
                 en_pin := sint (cfg_en_pin cfg), beh := b, soft_hz := soft_brake_hz b\<rparr>;
          s2 = s1\<lparr>use_en := (en_pin s1 \<ge> 0)\<rparr>
      in if \<not> gpio_init_l_ok r then Inl EspErrorAbort
         else if \<not> gpio_init_r_ok r then Inl EspErrorAbort
         else if \<not> mcpwm_init_ok r then Inl EspErrorAbort
         else if \<not> duty_type_a_ok r then Inl EspErrorAbort
         else if \<not> duty_type_b_ok r then Inl EspErrorAbort
         else
           let s3 = s2\<lparr>duty_A := 0, duty_B := 0\<rparr>;
               s4 = (if use_en s3 then setEnable True s3 else s3)
           in if soft_timer s4 then Inr s4
              else if \<not> timer_create_ok r then Inl EspErrorAbort
              else Inr (s4\<lparr>soft_timer := True\<rparr>))"

text \<open>\<^verbatim>\<open>setup(cfg)\<close>: the default profile, with \<open>HiZ\<close> mapped to \<open>HiZ_Awake\<close> when there is no enable pin.\<close>

definition setup_cfg :: "init_results \<Rightarrow> MotorMCPWMConfig \<Rightarrow> HBridgeMotor \<Rightarrow> fault + HBridgeMotor" where
  "setup_cfg r cfg s =
     (let def = default_behavior;
          def' = (if sint (cfg_en_pin cfg) < 0 \<and> freewheel_mode def = HiZ
                  then def\<lparr>freewheel_mode := HiZ_Awake\<rparr> else def)
      in setup_cfg_beh r cfg def' s)"

text \<open>
  Concrete configurations: every ESP-IDF call succeeding, the pin mapping \<^verbatim>\<open>DRIVE_MCPWM\<close>
  of \<^verbatim>\<open>app_config.h\<close> (enable on pin 39), and the same mapping without an enable pin.
\<close>

definition all_ok :: init_results where
  "all_ok = \<lparr>gpio_init_l_ok = True, gpio_init_r_ok = True, mcpwm_init_ok = True,
     duty_type_a_ok = True, duty_type_b_ok = True, timer_create_ok = True\<rparr>"

definition DRIVE_MCPWM :: MotorMCPWMConfig where
  "DRIVE_MCPWM = \<lparr>cfg_lpwm_pin = 37, cfg_rpwm_pin = 38, cfg_en_pin = 39\<rparr>"

definition no_en_cfg :: MotorMCPWMConfig where
  "no_en_cfg = \<lparr>cfg_lpwm_pin = 37, cfg_rpwm_pin = 38, cfg_en_pin = - 1\<rparr>"

subsection \<open>Auxiliary notions for the properties of the driver\<close>

text \<open>The level that \<^verbatim>\<open>recomputeSoftDurations\<close> derives from a requested soft-brake duty.\<close>

definition level_of :: "16 word \<Rightarrow> real" where
  "level_of pwm = clamp (f32 (real (unat pwm) / real_of_int kPwmMaxInput)) 0 1"

text \<open>The duty in percent that \<^verbatim>\<open>setSpeed\<close> writes for a clamped speed.\<close>

definition drive_duty :: "int \<Rightarrow> real" where
  "drive_duty c = f32 (real_of_int c * percent_per_count)"

text \<open>
  Between two operations of the driver: the timer handle exists, a one-shot is pending
  exactly while the soft-brake cycle is flagged active, and a pending delay is at least the
  minimum phase length.
\<close>

definition motor_inv :: "HBridgeMotor \<Rightarrow> bool" where
  "motor_inv s \<longleftrightarrow>
     soft_timer s \<and> soft_active s = (timer_armed s \<noteq> None) \<and>
     (case timer_armed s of None \<Rightarrow> True | Some d \<Rightarrow> kMinPhaseUs \<le> d)"

text \<open>
  What \<^verbatim>\<open>stopSoftBrake\<close> and \<^verbatim>\<open>setEnable\<close> ask of the platform in a given state, and
  the states in which no timer callback is pending: firing the timer then changes nothing.
\<close>

definition stops :: "HBridgeMotor \<Rightarrow> hw_call list" where
  "stops s = (if soft_active s then [TimerStop] else [])"

definition enables :: "bool \<Rightarrow> HBridgeMotor \<Rightarrow> hw_call list" where
  "enables v s = (if use_en s \<and> en_state s \<noteq> v then [DigitalWrite (en_pin s) v] else [])"

definition quiet :: "HBridgeMotor \<Rightarrow> bool" where
  "quiet s \<longleftrightarrow> \<not> soft_active s \<and> timer_armed s = None \<and> timer_fires s = Inr s"

text \<open>The three results of engaging the soft brake.\<close>

definition freewheel_outcome :: "HBridgeMotor \<Rightarrow> bool" where
  "freewheel_outcome s \<longleftrightarrow>
     \<not> soft_active s \<and> timer_armed s = None \<and> duty_A s = 0 \<and> duty_B s = 0 \<and>
     freewheel_mode (beh s) \<noteq> DitherBrake \<and>
     (use_en s \<longrightarrow> en_state s = (freewheel_mode (beh s) = HiZ_Awake))"

definition hard_brake_outcome :: "HBridgeMotor \<Rightarrow> bool" where
  "hard_brake_outcome s \<longleftrightarrow>
     \<not> soft_active s \<and> timer_armed s = None \<and> duty_A s = 100 \<and> duty_B s = 100 \<and>
     (use_en s \<longrightarrow> en_state s)"

definition dither_outcome :: "HBridgeMotor \<Rightarrow> bool" where
  "dither_outcome s \<longleftrightarrow>
     soft_active s \<and> (\<exists>d. timer_armed s = Some d \<and> kMinPhaseUs \<le> d) \<and>
     f32 (1 / 1000) < soft_level s \<and> soft_level s < f32 (999 / 1000)"

text \<open>
  The driver of \<^verbatim>\<open>main.cpp\<close> after \<^verbatim>\<open>setup(DRIVE_MCPWM, {HiZ, 300, 30})\<close>, and the
  same driver set up with a behaviour profile \<open>b\<close>.
\<close>

definition demo_motor :: HBridgeMotor where
  "demo_motor = HBridgeMotor_new\<lparr>lpwm_pin := 37, rpwm_pin := 38, en_pin := 39, use_en := True,
     en_state := True, soft_timer := True, hw_log := [DigitalWrite 39 True]\<rparr>"

definition motor_with :: "MotorBehaviorConfig \<Rightarrow> HBridgeMotor" where
  "motor_with b = demo_motor\<lparr>beh := b, soft_hz := soft_brake_hz b\<rparr>"

definition dither_zero :: MotorBehaviorConfig where
  "dither_zero = \<lparr>freewheel_mode = DitherBrake, soft_brake_hz = 300, dither_pwm = 0\<rparr>"

definition dither_light :: MotorBehaviorConfig where
  "dither_light = \<lparr>freewheel_mode = DitherBrake, soft_brake_hz = 300, dither_pwm = 30\<rparr>"

text \<open>
  Names for the quantities of \<^verbatim>\<open>recomputeSoftDurations\<close> and \<^verbatim>\<open>startSoftBrake\<close>: the
  dither period, the exact split of the truncated period into brake and coast time, and the
  floor on a positive phase length.
\<close>

definition period_of :: "int \<Rightarrow> real" where
  "period_of hz = f64 (kMicrosPerSec / real_of_int hz)"

definition raw_brake :: "int \<Rightarrow> real \<Rightarrow> int" where
  "raw_brake hz level = trunc (f64 (period_of hz * level))"

definition raw_coast :: "int \<Rightarrow> real \<Rightarrow> int" where
  "raw_coast hz level = trunc (period_of hz) - raw_brake hz level"

definition floor_phase :: "int \<Rightarrow> int" where
  "floor_phase us = (if us < kMinPhaseUs \<and> us > 0 then kMinPhaseUs else us)"

text \<open>
  The configurations in which freewheeling by light braking asks for a level at or below
  the cut-off at which soft braking falls through to freewheeling.
\<close>

definition stuck :: "HBridgeMotor \<Rightarrow> bool" where
  "stuck s \<longleftrightarrow>
     freewheel_mode (beh s) = DitherBrake \<and> uint (dither_pwm (beh s)) \<le> 1 \<and> soft_hz s \<noteq> 0"

text \<open>The driver after \<^verbatim>\<open>setup(cfg)\<close> on a pin mapping without enable pin.\<close>

definition no_en_awake :: HBridgeMotor where
  "no_en_awake = HBridgeMotor_new\<lparr>lpwm_pin := 37, rpwm_pin := 38, soft_timer := True,
     beh := default_behavior\<lparr>freewheel_mode := HiZ_Awake\<rparr>\<rparr>"

text \<open>
  The driver of \<^verbatim>\<open>main.cpp\<close> while it dithers: \<^verbatim>\<open>setSpeed(0, CW)\<close> right after setup,
  with the default soft-brake duty 50.
\<close>

definition dithering_motor :: HBridgeMotor where
  "dithering_motor = demo_motor\<lparr>soft_active := True, soft_level := 13120013 / 268435456,
     soft_us_brake := 162, soft_us_coast := 3171, duty_A := 0, duty_B := 0,
     timer_armed := Some 3171,
     hw_log := [DigitalWrite 39 True, McpwmSetDuty MCPWM_OPR_A 0, McpwmSetDuty MCPWM_OPR_B 0,
                TimerStartOnce 3171]\<rparr>"

text \<open>The dithering driver after \<^verbatim>\<open>setSoftBrakePWM(0)\<close>, and after the timer has then fired.\<close>

definition zero_duty_motor :: HBridgeMotor where
  "zero_duty_motor = dithering_motor\<lparr>soft_brake_pwm := 0, soft_level := 0, soft_us_brake := 0,
     soft_us_coast := 3333\<rparr>"

definition zero_duty_braking :: HBridgeMotor where
  "zero_duty_braking = zero_duty_motor\<lparr>soft_phase := Brake, duty_A := 100, duty_B := 100,
     timer_armed := Some 1500,
     hw_log := hw_log zero_duty_motor @
       [McpwmSetDuty MCPWM_OPR_A 100, McpwmSetDuty MCPWM_OPR_B 100, TimerStartOnce 1500]\<rparr>"

text \<open>
  The dithering driver inside the timer callback, in the brake phase, before the next
  one-shot is armed.
\<close>

definition brake_phase_motor :: HBridgeMotor where
  "brake_phase_motor = dithering_motor\<lparr>soft_phase := Brake, duty_A := 100, duty_B := 100,
     timer_armed := None,
     hw_log := hw_log dithering_motor @
       [McpwmSetDuty MCPWM_OPR_A 100, McpwmSetDuty MCPWM_OPR_B 100]\<rparr>"

text \<open>The driver with a requested soft-brake duty of 512, and while it dithers at that duty.\<close>

definition half_motor :: HBridgeMotor where
  "half_motor = demo_motor\<lparr>soft_brake_pwm := 512\<rparr>"

definition half_dithering :: HBridgeMotor where
  "half_dithering = half_motor\<lparr>soft_active := True, soft_level := 1049601 / 2097152,
     soft_us_brake := 1668, soft_us_coast := 1665, duty_A := 0, duty_B := 0,
     timer_armed := Some 1665,
     hw_log := [DigitalWrite 39 True, McpwmSetDuty MCPWM_OPR_A 0, McpwmSetDuty MCPWM_OPR_B 0,
                TimerStartOnce 1665]\<rparr>"

text \<open>
  The dithering driver after \<^verbatim>\<open>setFreewheel()\<close>, after \<^verbatim>\<open>setSpeed(2000, CW)\<close> and after
  \<^verbatim>\<open>setHardBrake()\<close>.
\<close>

definition freewheeled_motor :: HBridgeMotor where
  "freewheeled_motor = dithering_motor\<lparr>soft_active := False, timer_armed := None,
     en_state := False,
     hw_log := hw_log dithering_motor @
       [TimerStop, DigitalWrite 39 False, McpwmSetDuty MCPWM_OPR_A 0, McpwmSetDuty MCPWM_OPR_B 0]\<rparr>"

definition driving_motor :: HBridgeMotor where
  "driving_motor = dithering_motor\<lparr>soft_active := False, timer_armed := None,
     duty_A := 100, duty_B := 0,
     hw_log := hw_log dithering_motor @
       [TimerStop, McpwmSetDuty MCPWM_OPR_A 100, McpwmSetDuty MCPWM_OPR_B 0]\<rparr>"

definition hard_braked_motor :: HBridgeMotor where
  "hard_braked_motor = dithering_motor\<lparr>soft_active := False, timer_armed := None,
     duty_A := 100, duty_B := 100,
     hw_log := hw_log dithering_motor @
       [TimerStop, McpwmSetDuty MCPWM_OPR_A 100, McpwmSetDuty MCPWM_OPR_B 100]\<rparr>"

text \<open>
  The driver set up for freewheeling by light braking with dither duty 0, after
  \<^verbatim>\<open>setSoftBrakePWM(0)\<close>.
\<close>

definition stuck_motor :: HBridgeMotor where
  "stuck_motor = (motor_with dither_zero)\<lparr>soft_brake_pwm := 0\<rparr>"

text \<open>
  What a call of \<^verbatim>\<open>startSoftBrake\<close> or of \<^verbatim>\<open>setFreewheel\<close> that returns establishes:
  the invariant, the configuration unchanged, one of the three results, and a log that only
  grew. After \<^verbatim>\<open>setFreewheel\<close> the new part of the log starts with the stop of the timer
  when the cycle was active, and a pending timer is one that was armed after it.
\<close>

definition frame :: "HBridgeMotor \<Rightarrow> HBridgeMotor \<Rightarrow> bool" where
  "frame s s' \<longleftrightarrow> beh s' = beh s \<and> soft_hz s' = soft_hz s \<and> use_en s' = use_en s"

definition outcome :: "HBridgeMotor \<Rightarrow> bool" where
  "outcome s \<longleftrightarrow> freewheel_outcome s \<or> hard_brake_outcome s \<or> dither_outcome s"

definition post_sb :: "HBridgeMotor \<Rightarrow> HBridgeMotor \<Rightarrow> bool" where
  "post_sb s s' \<longleftrightarrow> motor_inv s' \<and> frame s s' \<and> outcome s' \<and>
     (\<exists>rest. hw_log s' = hw_log s @ rest \<and>
        (\<not> soft_active s \<longrightarrow> (\<forall>d. timer_armed s' = Some d \<longrightarrow> TimerStartOnce d \<in> set rest)))"

definition post_fw :: "HBridgeMotor \<Rightarrow> HBridgeMotor \<Rightarrow> bool" where
  "post_fw s s' \<longleftrightarrow> motor_inv s' \<and> frame s s' \<and> outcome s' \<and>
     (\<exists>rest. hw_log s' = hw_log s @ stops s @ rest \<and>
        (\<forall>d. timer_armed s' = Some d \<longrightarrow> TimerStartOnce d \<in> set rest))"

text \<open>
  The configurations in which \<^verbatim>\<open>setFreewheel\<close> returns: a mode other than light braking,
  or a nonzero frequency with a dither duty of at least 2.
\<close>

definition returns_ok :: "HBridgeMotor \<Rightarrow> bool" where
  "returns_ok s \<longleftrightarrow>
     freewheel_mode (beh s) \<noteq> DitherBrake \<or> (soft_hz s \<noteq> 0 \<and> 2 \<le> uint (dither_pwm (beh s)))"

section \<open>Properties of the rounding\<close>

lemma binade_numeral:
  "binade (numeral k) x =
     (if x < 1 then binade (pred_numeral k) (2 * x) - 1
      else if 2 \<le> x then binade (pred_numeral k) (x / 2) + 1 else 0)"
  by (simp add: numeral_eq_Suc)

lemmas fl_eval = f32_def f64_def fl_def round_even_def Let_def trunc_def binade_numeral

lemma round_even_bounds: "\<lfloor>r\<rfloor> \<le> round_even r \<and> round_even r \<le> \<lfloor>r\<rfloor> + 1"
  by (simp add: round_even_def Let_def)

lemma round_even_of_int [simp]: "round_even (of_int k) = k"
  by (simp add: round_even_def)

lemma round_even_mono:
  assumes "r \<le> r'"
  shows "round_even r \<le> round_even r'"
proof (cases "\<lfloor>r\<rfloor> = \<lfloor>r'\<rfloor>")
  case True
  then show ?thesis using assms by (auto simp: round_even_def Let_def)
next
  case False
  then have "\<lfloor>r\<rfloor> < \<lfloor>r'\<rfloor>" using assms floor_mono[of r r'] by linarith
  then show ?thesis
    using round_even_bounds[of r] round_even_bounds[of r'] by linarith
qed

text \<open>Within its search range \<open>binade\<close> finds the exponent of its argument.\<close>

lemma binade_spec:
  "0 < x \<Longrightarrow> 2 powi (- int n) \<le> x \<Longrightarrow> x < 2 powi (int n + 1) \<Longrightarrow>
   2 powi (binade n x) \<le> x \<and> x < 2 powi (binade n x + 1)"
proof (induction n arbitrary: x)
  case 0
  then show ?case by simp
next
  case (Suc n)
  have half: "(2::real) powi (k - 1) = 2 powi k / 2" for k
    by (simp add: power_int_diff)
  have dbl: "(2::real) powi (k + 1) = 2 powi k * 2" for k
    by (simp add: power_int_add)
  show ?case
  proof (cases "x < 1")
    case True
    have "- int (Suc n) = - int n - 1" by simp
    then have "(2::real) powi (- int (Suc n)) = 2 powi (- int n - 1)"
      by (rule arg_cong)
    then have "(2::real) powi (- int (Suc n)) = 2 powi (- int n) / 2"
      by (simp only: half)
    then have lo: "2 powi (- int n) \<le> 2 * x"
      using Suc.prems(2) by linarith
    have "(1::real) \<le> 2 powi (int n)" by (simp add: one_le_power)
    then have hi: "2 * x < 2 powi (int n + 1)"
      using True dbl[of "int n"] by linarith
    from Suc.IH[OF _ lo hi] Suc.prems(1)
    have ih: "2 powi (binade n (2 * x)) \<le> 2 * x \<and> 2 * x < 2 powi (binade n (2 * x) + 1)" by simp
    have e: "binade (Suc n) x = binade n (2 * x) - 1" using True by simp
    have "2 powi (binade n (2 * x) - 1) \<le> x"
      using ih half[of "binade n (2 * x)"] by linarith
    moreover have "x < 2 powi (binade n (2 * x) - 1 + 1)"
      using ih dbl[of "binade n (2 * x)"] by simp
    ultimately show ?thesis by (simp only: e)
  next
    case False
    show ?thesis
    proof (cases "2 \<le> x")
      case True
      have "(2::real) powi (- int n) \<le> 1" by (simp add: power_int_minus_divide one_le_power)
      then have lo: "2 powi (- int n) \<le> x / 2" using True by linarith
      have "int (Suc n) + 1 = int n + 1 + 1" by simp
      then have "(2::real) powi (int (Suc n) + 1) = 2 powi (int n + 1 + 1)"
        by (rule arg_cong)
      then have "(2::real) powi (int (Suc n) + 1) = 2 powi (int n + 1) * 2"
        by (simp only: dbl)
      then have hi: "x / 2 < 2 powi (int n + 1)"
        using Suc.prems(3) by linarith
      from Suc.IH[OF _ lo hi] Suc.prems(1)
      have ih: "2 powi (binade n (x / 2)) \<le> x / 2 \<and> x / 2 < 2 powi (binade n (x / 2) + 1)" by simp
      have e: "binade (Suc n) x = binade n (x / 2) + 1" using True False by simp
      have "2 powi (binade n (x / 2) + 1) \<le> x"
        using ih dbl[of "binade n (x / 2)"] by linarith
      moreover have "x < 2 powi (binade n (x / 2) + 1 + 1)"
        using ih dbl[of "binade n (x / 2) + 1"] by linarith
      ultimately show ?thesis by (simp only: e)
    next
      case False
      then show ?thesis using \<open>\<not> x < 1\<close> by simp
    qed
  qed
qed

lemma fl_pos:
  "0 < x \<Longrightarrow> fl p n x = of_int (round_even (x / 2 powi (binade n x - int p + 1))) * 2 powi (binade n x - int p + 1)"
  by (simp add: fl_def Let_def)

text \<open>A positive value rounds to a value of its own binade, or to the next power of two.\<close>

lemma fl_pos_bounds:
  assumes "0 < x" and "2 powi (- int n) \<le> x" and "x < 2 powi (int n + 1)" and "0 < p"
  shows "2 powi (binade n x) \<le> fl p n x \<and> fl p n x \<le> 2 powi (binade n x + 1)"
proof -
  define e where "e = binade n x"
  define q :: real where "q = 2 powi (e - int p + 1)"
  have q: "0 < q" by (simp add: q_def)
  have spec: "2 powi e \<le> x" "x < 2 powi (e + 1)"
    using binade_spec[OF assms(1-3)] by (simp_all add: e_def)
  have padd: "(2::real) powi (a + b) = 2 powi a * 2 powi b" for a b
    by (simp add: power_int_add)
  have lo_q: "2 powi e = of_int (2 ^ (p - 1)) * q"
  proof -
    have "e = int (p - 1) + (e - int p + 1)" using assms(4) by simp
    then have "(2::real) powi e = 2 powi (int (p - 1) + (e - int p + 1))" by (rule arg_cong)
    also have "\<dots> = 2 powi (int (p - 1)) * q" by (simp only: padd q_def)
    finally show ?thesis by simp
  qed
  have hi_q: "2 powi (e + 1) = of_int (2 ^ p) * q"
  proof -
    have "e + 1 = int p + (e - int p + 1)" by simp
    then have "(2::real) powi (e + 1) = 2 powi (int p + (e - int p + 1))" by (rule arg_cong)
    also have "\<dots> = 2 powi (int p) * q" by (simp only: padd q_def)
    finally show ?thesis by simp
  qed
  have "of_int (2 ^ (p - 1)) \<le> x / q"
    using spec(1) lo_q q by (simp add: pos_le_divide_eq)
  then have "round_even (of_int (2 ^ (p - 1))) \<le> round_even (x / q)"
    by (rule round_even_mono)
  then have m_lo: "(2::int) ^ (p - 1) \<le> round_even (x / q)" by (simp only: round_even_of_int)
  have "x / q \<le> of_int (2 ^ p)"
    using spec(2) hi_q q by (simp add: pos_divide_le_eq)
  then have "round_even (x / q) \<le> round_even (of_int (2 ^ p))"
    by (rule round_even_mono)
  then have m_hi: "round_even (x / q) \<le> (2::int) ^ p" by (simp only: round_even_of_int)
  have val: "fl p n x = of_int (round_even (x / q)) * q"
    using assms(1) by (simp add: fl_pos q_def e_def)
  have "of_int (2 ^ (p - 1)) * q \<le> of_int (round_even (x / q)) * q"
    using m_lo q by (intro mult_right_mono) (simp_all only: of_int_le_iff less_imp_le)
  moreover have "of_int (round_even (x / q)) * q \<le> of_int (2 ^ p) * q"
    using m_hi q by (intro mult_right_mono) (simp_all only: of_int_le_iff less_imp_le)
  ultimately show ?thesis
    unfolding val e_def[symmetric] lo_q hi_q by simp
qed

text \<open>Rounding is monotone on the positive values of the search range.\<close>

lemma fl_mono_pos:
  assumes "0 < x" and "x \<le> y"
    and "2 powi (- int n) \<le> x" and "y < 2 powi (int n + 1)" and "0 < p"
  shows "fl p n x \<le> fl p n y"
proof -
  have y: "0 < y" "2 powi (- int n) \<le> y" using assms by linarith+
  have x: "x < 2 powi (int n + 1)" using assms by linarith
  have sx: "2 powi (binade n x) \<le> x" "x < 2 powi (binade n x + 1)"
    using binade_spec[OF assms(1) assms(3) x] by simp_all
  have sy: "2 powi (binade n y) \<le> y" "y < 2 powi (binade n y + 1)"
    using binade_spec[OF y(1) y(2) assms(4)] by simp_all
  have "(2::real) powi (binade n x) < 2 powi (binade n y + 1)"
    using sx(1) assms(2) sy(2) by linarith
  then have le: "binade n x \<le> binade n y"
    using power_int_increasing[of "binade n y + 1" "binade n x" "2::real"]
    by (cases "binade n x \<le> binade n y") auto
  show ?thesis
  proof (cases "binade n x = binade n y")
    case True
    let ?q = "(2::real) powi (binade n y - int p + 1)"
    have q: "0 < ?q" by simp
    have "x / ?q \<le> y / ?q" using assms(2) q by (simp add: divide_right_mono)
    then have "round_even (x / ?q) \<le> round_even (y / ?q)" by (rule round_even_mono)
    then have "of_int (round_even (x / ?q)) * ?q \<le> of_int (round_even (y / ?q)) * ?q"
      using q by (intro mult_right_mono) (simp_all only: of_int_le_iff less_imp_le)
    then show ?thesis using assms(1) y(1) True by (simp only: fl_pos)
  next
    case False
    then have "binade n x + 1 \<le> binade n y" using le by simp
    then have "(2::real) powi (binade n x + 1) \<le> 2 powi (binade n y)"
      by (intro power_int_increasing) simp_all
    moreover have "fl p n x \<le> 2 powi (binade n x + 1)"
      using fl_pos_bounds[OF assms(1) assms(3) x assms(5)] by simp
    moreover have "2 powi (binade n y) \<le> fl p n y"
      using fl_pos_bounds[OF y(1) y(2) assms(4) assms(5)] by simp
    ultimately show ?thesis by linarith
  qed
qed

subsection \<open>The constants of the driver\<close>

lemma kPwmMaxInput_val: "kPwmMaxInput = 1023"
  by (simp add: kPwmMaxInput_def kBitRes_def)

lemma percent_per_count_val: "percent_per_count = 13120013 / 134217728"
  by (simp add: percent_per_count_def kPwmMaxInput_val fl_eval)

lemma low_cutoff_val: "f32 (1 / 1000) = 8589935 / 8589934592"
  by (simp add: fl_eval)

lemma high_cutoff_val: "f32 (999 / 1000) = 16760439 / 16777216"
  by (simp add: fl_eval)

lemma level_of_0: "level_of 0 = 0"
  by (simp add: level_of_def clamp_def kPwmMaxInput_val fl_eval)

lemma level_of_1: "level_of 1 = 1049601 / 1073741824"
  by (simp add: level_of_def clamp_def kPwmMaxInput_val fl_eval)

lemma level_of_30: "level_of 30 = 15744015 / 536870912"
  by (simp add: level_of_def clamp_def kPwmMaxInput_val fl_eval)

lemma level_of_50: "level_of 50 = 13120013 / 268435456"
  by (simp add: level_of_def clamp_def kPwmMaxInput_val fl_eval)

lemma level_of_512: "level_of 512 = 1049601 / 2097152"
  by (simp add: level_of_def clamp_def kPwmMaxInput_val fl_eval)

lemma period_300: "period_of 300 = 7330077518506667 / 2199023255552"
  by (simp add: period_of_def kMicrosPerSec_def fl_eval)

lemma trunc_period_300: "trunc (period_of 300) = 3333"
  by (simp add: period_300 trunc_def)

lemma raw_300_50: "raw_brake 300 (level_of 50) = 162 \<and> raw_coast 300 (level_of 50) = 3171"
  by (simp add: raw_brake_def raw_coast_def trunc_period_300 level_of_50)
     (simp add: period_300 fl_eval)

lemma raw_300_512: "raw_brake 300 (level_of 512) = 1668 \<and> raw_coast 300 (level_of 512) = 1665"
  by (simp add: raw_brake_def raw_coast_def trunc_period_300 level_of_512)
     (simp add: period_300 fl_eval)

lemma raw_brake_zero: "raw_brake hz 0 = 0"
  by (simp add: raw_brake_def fl_eval)

section \<open>Properties of the button handler\<close>

subsection \<open>The scan treats each button on its own\<close>

lemma update_button_frame:
  "pins (update_button rf now j s) = pins s \<and> timing (update_button rf now j s) = timing s \<and>
   N (update_button rf now j s) = N s"
  by (simp add: update_button_def N_def Let_def)

lemma update_button_wf: "wf_handler s \<Longrightarrow> wf_handler (update_button rf now j s)"
  by (simp add: update_button_def wf_handler_def N_def Let_def)

lemma update_button_other: "i \<noteq> j \<Longrightarrow> channel (update_button rf now j s) i = channel s i"
  by (simp add: update_button_def channel_def Let_def)

lemma fold_update_button_frame:
  "pins (fold (update_button rf now) js s) = pins s \<and>
   timing (fold (update_button rf now) js s) = timing s \<and>
   N (fold (update_button rf now) js s) = N s \<and>
   (wf_handler s \<longrightarrow> wf_handler (fold (update_button rf now) js s))"
  by (induction js arbitrary: s) (simp_all add: update_button_frame update_button_wf)

lemma fold_update_button_notin:
  "i \<notin> set js \<Longrightarrow> channel (fold (update_button rf now) js s) i = channel s i"
  by (induction js arbitrary: s) (simp_all add: update_button_other)

lemma update_button_local:
  "channel s i = channel s' i \<Longrightarrow> pins s ! i = pins s' ! i \<Longrightarrow> timing s = timing s' \<Longrightarrow>
   i < length (last_state s) \<Longrightarrow> i < length (last_state_change s) \<Longrightarrow>
   i < length (press_start s) \<Longrightarrow> i < length (event s) \<Longrightarrow>
   i < length (last_state s') \<Longrightarrow> i < length (last_state_change s') \<Longrightarrow>
   i < length (press_start s') \<Longrightarrow> i < length (event s') \<Longrightarrow>
   channel (update_button rf now i s) i = channel (update_button rf now i s') i"
  by (simp add: update_button_def channel_def Let_def)

lemma update_channel:
  assumes "wf_handler s" "i < N s"
  shows "channel (update rf now s) i = channel (update_button rf now i s) i"
proof -
  have split: "[0..<N s] = [0..<i] @ i # [Suc i..<N s]"
    using assms(2) by (metis upt_conv_Cons upt_add_eq_append le0 le_add_diff_inverse less_imp_le_nat)
  let ?s1 = "fold (update_button rf now) [0..<i] s"
  have a: "channel ?s1 i = channel s i"
    by (rule fold_update_button_notin) simp
  have f: "pins ?s1 = pins s" "timing ?s1 = timing s" "N ?s1 = N s" "wf_handler ?s1"
    using fold_update_button_frame[of rf now "[0..<i]" s] assms(1) by simp_all
  have b: "channel (update_button rf now i ?s1) i = channel (update_button rf now i s) i"
    using a f assms by (intro update_button_local) (simp_all add: wf_handler_def)
  have "channel (update rf now s) i
        = channel (fold (update_button rf now) [Suc i..<N s] (update_button rf now i ?s1)) i"
    unfolding update_def by (subst split) simp
  also have "\<dots> = channel (update_button rf now i ?s1) i"
    by (rule fold_update_button_notin) simp
  finally show ?thesis using b by simp
qed

lemma update_frame:
  "pins (update rf now s) = pins s \<and> timing (update rf now s) = timing s \<and>
   N (update rf now s) = N s \<and> (wf_handler s \<longrightarrow> wf_handler (update rf now s))"
  unfolding update_def by (rule fold_update_button_frame)

lemmas button_eval = update_def update_button_def N_def classify_def default_timing_def
  all_pressed_def all_released_def Let_def wf_handler_def channel_def

lemma demo_handler_init: "ButtonHandler_init [7] default_timing = Some demo_handler"
  by (simp add: ButtonHandler_init_def demo_handler_def)

lemma ButtonHandler_init_wf: "ButtonHandler_init ps tm = Some s \<Longrightarrow> wf_handler s"
  by (auto simp: ButtonHandler_init_def wf_handler_def N_def split: if_splits)

text \<open>
  The two scenarios of the specification: with 30 / 200 / 1000 ms, a press held 500 ms is
  read as Short and a press held 1200 ms as Long.
\<close>

lemma scenario_short:
  "fst (getPressType 0 (scans [(100, all_pressed), (600, all_released)] demo_handler)) = Short"
  by (simp add: demo_handler_def getPressType_def button_eval)

lemma scenario_long:
  "fst (getPressType 0 (scans [(100, all_pressed), (1300, all_released)] demo_handler)) = Long"
  by (simp add: demo_handler_def getPressType_def button_eval)

subsection \<open>Classification of a release\<close>

lemma release_accepted:
  assumes "wf_handler s" and "i < N s"
    and "last_state s ! i" and "\<not> read_func (pins s ! i)"
    and "now - last_state_change s ! i \<ge> debounce_ms (timing s)"
  shows "channel (update read_func now s) i
       = (False, now, 0, classify (timing s) (now - press_start s ! i))"
proof -
  have "channel (update read_func now s) i = channel (update_button read_func now i s) i"
    using assms(1,2) by (rule update_channel)
  also have "\<dots> = (False, now, 0, classify (timing s) (now - press_start s ! i))"
    using assms by (simp add: update_button_def channel_def wf_handler_def Let_def)
  finally show ?thesis .
qed

text \<open>
  Claim C1. The timing policy satisfies \<open>short_press_ms \<le> long_press_ms\<close>. When a release of
  button \<open>i\<close> is accepted (the button was held, the raw reading is released, and at least
  \<open>debounce_ms\<close> have passed since the last accepted change), with
  \<open>d = now - press_start[i]\<close> in 32-bit arithmetic: the debounced state becomes released,
  and the pending event is Long iff \<open>d \<ge> long_press_ms\<close>, Short iff
  \<open>short_press_ms \<le> d < long_press_ms\<close>, and None iff \<open>d < short_press_ms\<close>.
\<close>

theorem release_classification:
  assumes "wf_handler s" and "i < N s"
    and "last_state s ! i" and "\<not> read_func (pins s ! i)"
    and "now - last_state_change s ! i \<ge> debounce_ms (timing s)"
    and "short_press_ms (timing s) \<le> long_press_ms (timing s)"
  shows "\<not> last_state (update read_func now s) ! i
       \<and> (event (update read_func now s) ! i = Long
            \<longleftrightarrow> now - press_start s ! i \<ge> long_press_ms (timing s))
       \<and> (event (update read_func now s) ! i = Short
            \<longleftrightarrow> short_press_ms (timing s) \<le> now - press_start s ! i
                \<and> now - press_start s ! i < long_press_ms (timing s))
       \<and> (event (update read_func now s) ! i = None_press
            \<longleftrightarrow> now - press_start s ! i < short_press_ms (timing s))"
proof -
  have ch: "channel (update read_func now s) i
          = (False, now, 0, classify (timing s) (now - press_start s ! i))"
    using assms(1-5) by (rule release_accepted)
  then have st: "\<not> last_state (update read_func now s) ! i"
    and ev: "event (update read_func now s) ! i = classify (timing s) (now - press_start s ! i)"
    by (simp_all add: channel_def)
  show ?thesis
    using st assms(6) unfolding ev classify_def by auto
qed

theorem release_classification_witness:
  "wf_handler (update all_pressed 100 demo_handler)
   \<and> 0 < N (update all_pressed 100 demo_handler)
   \<and> last_state (update all_pressed 100 demo_handler) ! 0
   \<and> \<not> all_released (pins (update all_pressed 100 demo_handler) ! 0)
   \<and> debounce_ms (timing (update all_pressed 100 demo_handler))
         \<le> 150 - last_state_change (update all_pressed 100 demo_handler) ! 0
   \<and> short_press_ms (timing (update all_pressed 100 demo_handler))
         \<le> long_press_ms (timing (update all_pressed 100 demo_handler))
   \<and> short_press_ms (timing (update all_pressed 100 demo_handler)) = 200
   \<and> long_press_ms (timing (update all_pressed 100 demo_handler)) = 1000
   \<and> press_start (update all_pressed 100 demo_handler) ! 0 = 100
   \<and> event (update all_released 150 (update all_pressed 100 demo_handler)) ! 0 = None_press
   \<and> event (update all_released 600 (update all_pressed 100 demo_handler)) ! 0 = Short
   \<and> event (update all_released 1300 (update all_pressed 100 demo_handler)) ! 0 = Long
   \<and> \<not> last_state (update all_released 600 (update all_pressed 100 demo_handler)) ! 0"
  using release_classification[of "update all_pressed 100 demo_handler" 0 all_released 150]
    release_classification[of "update all_pressed 100 demo_handler" 0 all_released 600]
    release_classification[of "update all_pressed 100 demo_handler" 0 all_released 1300]
  by (simp add: demo_handler_def button_eval)

subsection \<open>Consuming the event\<close>

lemma update_keeps_event:
  assumes "wf_handler s" and "i < N s"
    and "\<not> (last_state s ! i \<and> \<not> read_func (pins s ! i)
            \<and> debounce_ms (timing s) \<le> now - last_state_change s ! i)"
  shows "event (update read_func now s) ! i = event s ! i"
proof -
  have "channel (update read_func now s) i = channel (update_button read_func now i s) i"
    using assms(1,2) by (rule update_channel)
  then have "event (update read_func now s) ! i = event (update_button read_func now i s) ! i"
    by (simp add: channel_def)
  also have "\<dots> = event s ! i"
    using assms(3) by (auto simp: update_button_def Let_def)
  finally show ?thesis .
qed

text \<open>
  Claim C7. For a button index in range, \<open>getPressType\<close> returns the pending event and
  leaves the handler with that event reset to None and nothing else changed, so a second
  call returns None, at once or after a scan in which no release of that button is
  accepted. For an index out of range it returns None and the handler unchanged.
\<close>

theorem getPressType_consumes:
  assumes "wf_handler s"
  shows "(unat buttonId < N s \<longrightarrow>
            fst (getPressType buttonId s) = event s ! unat buttonId
          \<and> snd (getPressType buttonId s) = s\<lparr>event := (event s)[unat buttonId := None_press]\<rparr>
          \<and> event (snd (getPressType buttonId s)) ! unat buttonId = None_press
          \<and> fst (getPressType buttonId (snd (getPressType buttonId s))) = None_press)
       \<and> (unat buttonId < N s
            \<and> \<not> (last_state s ! unat buttonId \<and> \<not> read_func (pins s ! unat buttonId)
                  \<and> debounce_ms (timing s) \<le> now - last_state_change s ! unat buttonId) \<longrightarrow>
            fst (getPressType buttonId (update read_func now (snd (getPressType buttonId s))))
              = None_press)
       \<and> (N s \<le> unat buttonId \<longrightarrow> getPressType buttonId s = (None_press, s))"
proof -
  let ?i = "unat buttonId"
  let ?s1 = "s\<lparr>event := (event s)[?i := None_press]\<rparr>"
  have first: "?i < N s \<longrightarrow>
            fst (getPressType buttonId s) = event s ! ?i
          \<and> snd (getPressType buttonId s) = ?s1
          \<and> event (snd (getPressType buttonId s)) ! ?i = None_press
          \<and> fst (getPressType buttonId (snd (getPressType buttonId s))) = None_press"
    using assms by (simp add: getPressType_def wf_handler_def N_def)
  have later: "fst (getPressType buttonId (update read_func now (snd (getPressType buttonId s))))
              = None_press"
    if h: "?i < N s \<and> \<not> (last_state s ! ?i \<and> \<not> read_func (pins s ! ?i)
                  \<and> debounce_ms (timing s) \<le> now - last_state_change s ! ?i)"
  proof -
    have s1: "snd (getPressType buttonId s) = ?s1" using h by (simp add: getPressType_def)
    have wf1: "wf_handler ?s1" "?i < N ?s1" using assms h by (simp_all add: wf_handler_def N_def)
    have "event (update read_func now ?s1) ! ?i = event ?s1 ! ?i"
      using wf1 h by (intro update_keeps_event) simp_all
    also have "\<dots> = None_press" using assms h by (simp add: wf_handler_def N_def)
    finally have ev: "event (update read_func now ?s1) ! ?i = None_press" .
    have "N (update read_func now ?s1) = N ?s1" using update_frame[of read_func now ?s1] by simp
    then have "?i < N (update read_func now ?s1)" using wf1(2) by simp
    then have "fst (getPressType buttonId (update read_func now ?s1)) = None_press"
      using ev by (simp add: getPressType_def)
    then show ?thesis by (simp only: s1)
  qed
  have out: "N s \<le> ?i \<longrightarrow> getPressType buttonId s = (None_press, s)"
    by (simp add: getPressType_def)
  from first later out show ?thesis by blast
qed

theorem getPressType_consumes_witness:
  "wf_handler (scans [(100, all_pressed), (600, all_released)] demo_handler)
   \<and> unat (0 :: 8 word) < N (scans [(100, all_pressed), (600, all_released)] demo_handler)
   \<and> fst (getPressType 0 (scans [(100, all_pressed), (600, all_released)] demo_handler)) = Short
   \<and> fst (getPressType 0 (snd (getPressType 0
        (scans [(100, all_pressed), (600, all_released)] demo_handler)))) = None_press
   \<and> \<not> last_state (scans [(100, all_pressed), (600, all_released)] demo_handler) ! 0
   \<and> fst (getPressType 0 (update all_released 700 (snd (getPressType 0
        (scans [(100, all_pressed), (600, all_released)] demo_handler))))) = None_press
   \<and> N (scans [(100, all_pressed), (600, all_released)] demo_handler) \<le> unat (1 :: 8 word)
   \<and> getPressType 1 (scans [(100, all_pressed), (600, all_released)] demo_handler)
       = (None_press, scans [(100, all_pressed), (600, all_released)] demo_handler)"
  using getPressType_consumes[of "scans [(100, all_pressed), (600, all_released)] demo_handler" 0
      all_released 700]
    getPressType_consumes[of "scans [(100, all_pressed), (600, all_released)] demo_handler" 1
      all_released 700]
  by (simp add: demo_handler_def getPressType_def button_eval)

subsection \<open>Debounce\<close>

text \<open>
  A scan whose clock is less than \<open>debounce_ms\<close> past the last accepted change of button
  \<open>i\<close> leaves that button as it is, and so does any sequence of such scans.
\<close>

lemma update_lockout:
  assumes "wf_handler s" and "i < N s"
    and "now - last_state_change s ! i < debounce_ms (timing s)"
  shows "channel (update rf now s) i = channel s i"
proof -
  have "channel (update rf now s) i = channel (update_button rf now i s) i"
    using assms(1,2) by (rule update_channel)
  moreover from assms(3) have "\<not> debounce_ms (timing s) \<le> now - last_state_change s ! i"
    by (simp add: not_le)
  then have "channel (update_button rf now i s) i = channel s i"
    by (simp add: update_button_def Let_def)
  ultimately show ?thesis by simp
qed

lemma scans_lockout:
  assumes "wf_handler s" and "i < N s"
    and "\<forall>sample \<in> set samples. fst sample - last_state_change s ! i < debounce_ms (timing s)"
  shows "channel (scans samples s) i = channel s i"
  using assms
proof (induction samples arbitrary: s)
  case Nil
  then show ?case by simp
next
  case (Cons sample rest)
  obtain now rf where sample: "sample = (now, rf)" by (cases sample)
  let ?s' = "update rf now s"
  have early: "now - last_state_change s ! i < debounce_ms (timing s)"
    using Cons.prems(3) sample by simp
  have same: "channel ?s' i = channel s i"
    using Cons.prems(1,2) early by (rule update_lockout)
  have frame: "wf_handler ?s'" "N ?s' = N s" "timing ?s' = timing s"
    using update_frame[of rf now s] Cons.prems(1) by simp_all
  have "channel (scans rest ?s') i = channel ?s' i"
  proof (rule Cons.IH)
    show "wf_handler ?s'" by (rule frame)
    show "i < N ?s'" using Cons.prems(2) frame by simp
    show "\<forall>sample\<in>set rest. fst sample - last_state_change ?s' ! i < debounce_ms (timing ?s')"
      using Cons.prems(3) same frame by (simp add: channel_def)
  qed
  then show ?case using same sample by simp
qed

text \<open>A scan that reads the debounced level changes nothing for that button.\<close>

lemma update_no_change:
  assumes "wf_handler s" and "i < N s" and "rf (pins s ! i) = last_state s ! i"
  shows "channel (update rf now s) i = channel s i"
proof -
  have "channel (update rf now s) i = channel (update_button rf now i s) i"
    using assms(1,2) by (rule update_channel)
  then show ?thesis using assms(3) by (simp add: update_button_def Let_def)
qed

text \<open>
  A scan that reads the other level at least \<open>debounce_ms\<close> after the last accepted change
  switches the debounced state and restarts the lock-out.
\<close>

lemma update_accepts:
  assumes "wf_handler s" and "i < N s"
    and "rf (pins s ! i) \<noteq> last_state s ! i"
    and "debounce_ms (timing s) \<le> now - last_state_change s ! i"
  shows "last_state (update rf now s) ! i = rf (pins s ! i)
       \<and> last_state_change (update rf now s) ! i = now"
proof -
  have "channel (update rf now s) i = channel (update_button rf now i s) i"
    using assms(1,2) by (rule update_channel)
  moreover have "last_state (update_button rf now i s) ! i = rf (pins s ! i)
       \<and> last_state_change (update_button rf now i s) ! i = now"
    using assms by (simp add: update_button_def wf_handler_def Let_def)
  ultimately show ?thesis by (simp add: channel_def)
qed

text \<open>
  Claim C8. The comment in \<^verbatim>\<open>update()\<close> reads
  \<^verbatim>\<open>only accept state change if stable for debunce_ms\<close>, the field \<^verbatim>\<open>debounce_ms\<close> is
  documented as \<^verbatim>\<open>Minimum time to confirm a press/release\<close>, and the claim says the same
  of chatter. The test the code makes is another one: it compares the clock with the time
  of the last accepted change of button \<open>i\<close>, not with the time the raw level has been
  stable.

  \<^item> Scans less than \<open>debounce_ms\<close> after the last accepted change leave the debounced
    state, both timestamps and the pending event of the button unchanged, whatever the raw
    readings are.
  \<^item> A scan that reads a changed raw level \<open>debounce_ms\<close> or more after the last accepted
    change switches the debounced state at once.
  \<^item> So a raw level seen in one scan only is latched: the scan before (at any time \<open>t0\<close>)
    read the old level, the scan at \<open>now\<close> reads the new one and is accepted, and whatever
    the scans of the next \<open>debounce_ms\<close> read, the debounced state stays at the new level.
\<close>

theorem debounce_is_lockout:
  assumes "wf_handler s" and "i < N s"
  shows "((\<forall>sample \<in> set samples.
             fst sample - last_state_change s ! i < debounce_ms (timing s)) \<longrightarrow>
          channel (scans samples s) i = channel s i)
       \<and> (rf (pins s ! i) \<noteq> last_state s ! i
            \<and> debounce_ms (timing s) \<le> now - last_state_change s ! i \<longrightarrow>
          last_state (update rf now s) ! i = rf (pins s ! i)
            \<and> last_state_change (update rf now s) ! i = now)
       \<and> (rf0 (pins s ! i) = last_state s ! i
            \<and> rf (pins s ! i) \<noteq> last_state s ! i
            \<and> debounce_ms (timing s) \<le> now - last_state_change s ! i
            \<and> (\<forall>sample \<in> set later. fst sample - now < debounce_ms (timing s)) \<longrightarrow>
          last_state (scans ((t0, rf0) # (now, rf) # later) s) ! i = rf (pins s ! i))"
proof -
  have a: "channel (scans samples s) i = channel s i"
    if "\<forall>sample \<in> set samples. fst sample - last_state_change s ! i < debounce_ms (timing s)"
    using assms that by (rule scans_lockout)
  have b: "last_state (update rf now s) ! i = rf (pins s ! i)
            \<and> last_state_change (update rf now s) ! i = now"
    if "rf (pins s ! i) \<noteq> last_state s ! i"
      and "debounce_ms (timing s) \<le> now - last_state_change s ! i"
    using assms that by (rule update_accepts)
  have c: "last_state (scans ((t0, rf0) # (now, rf) # later) s) ! i = rf (pins s ! i)"
    if old: "rf0 (pins s ! i) = last_state s ! i"
      and new: "rf (pins s ! i) \<noteq> last_state s ! i"
      and late: "debounce_ms (timing s) \<le> now - last_state_change s ! i"
      and lock: "\<forall>sample \<in> set later. fst sample - now < debounce_ms (timing s)"
  proof -
    let ?s0 = "update rf0 t0 s"
    let ?s1 = "update rf now ?s0"
    have f0: "wf_handler ?s0" "N ?s0 = N s" "timing ?s0 = timing s" "pins ?s0 = pins s"
      using update_frame[of rf0 t0 s] assms(1) by simp_all
    have c0: "channel ?s0 i = channel s i"
      using assms old by (rule update_no_change)
    have acc: "last_state ?s1 ! i = rf (pins ?s0 ! i) \<and> last_state_change ?s1 ! i = now"
    proof (rule update_accepts)
      show "wf_handler ?s0" by (rule f0)
      show "i < N ?s0" using assms(2) f0 by simp
      show "rf (pins ?s0 ! i) \<noteq> last_state ?s0 ! i"
        using new c0 f0 by (simp add: channel_def)
      show "debounce_ms (timing ?s0) \<le> now - last_state_change ?s0 ! i"
        using late c0 f0 by (simp add: channel_def)
    qed
    have f1: "wf_handler ?s1" "N ?s1 = N s" "timing ?s1 = timing s"
      using update_frame[of rf now ?s0] f0 by simp_all
    have "channel (scans later ?s1) i = channel ?s1 i"
    proof (rule scans_lockout)
      show "wf_handler ?s1" by (rule f1)
      show "i < N ?s1" using assms(2) f1 by simp
      show "\<forall>sample\<in>set later. fst sample - last_state_change ?s1 ! i < debounce_ms (timing ?s1)"
        using lock acc f1 by simp
    qed
    then have "last_state (scans later ?s1) ! i = last_state ?s1 ! i"
      by (simp add: channel_def)
    then show ?thesis using acc f0 by simp
  qed
  show ?thesis using a b c by blast
qed

text \<open>
  With the 30 ms debounce of \<^verbatim>\<open>main.cpp\<close>. After the press accepted at 100 ms, the raw
  changes at 110, 120 and 129 ms are ignored. From rest, a raw level read as released at
  99 ms, pressed at 100 ms and released again at 101 and 110 ms leaves the button reported
  as pressed. Raw transitions 10 ms apart, pressed at 100, released at 110, pressed at 120,
  released at 130, change the debounced state at 100 and again at 130.
\<close>

theorem debounce_is_lockout_witness:
  "wf_handler (update all_pressed 100 demo_handler)
   \<and> 0 < N (update all_pressed 100 demo_handler)
   \<and> last_state_change (update all_pressed 100 demo_handler) ! 0 = 100
   \<and> (110 :: 32 word) - 100 < debounce_ms (timing (update all_pressed 100 demo_handler))
   \<and> (120 :: 32 word) - 100 < debounce_ms (timing (update all_pressed 100 demo_handler))
   \<and> (129 :: 32 word) - 100 < debounce_ms (timing (update all_pressed 100 demo_handler))
   \<and> channel (scans [(110, all_released), (120, all_pressed), (129, all_released)]
        (update all_pressed 100 demo_handler)) 0
       = (True, 100, 100, None_press)
   \<and> ButtonHandler_init [7] default_timing = Some demo_handler
   \<and> wf_handler demo_handler \<and> 0 < N demo_handler
   \<and> debounce_ms (timing demo_handler) = 30
   \<and> last_state demo_handler ! 0 = False
   \<and> all_released (pins demo_handler ! 0) = last_state demo_handler ! 0
   \<and> all_pressed (pins demo_handler ! 0) \<noteq> last_state demo_handler ! 0
   \<and> debounce_ms (timing demo_handler) \<le> 100 - last_state_change demo_handler ! 0
   \<and> (101 :: 32 word) - 100 < debounce_ms (timing demo_handler)
   \<and> (110 :: 32 word) - 100 < debounce_ms (timing demo_handler)
   \<and> last_state (update all_pressed 100 demo_handler) ! 0 = True
   \<and> last_state (scans [(99, all_released), (100, all_pressed), (101, all_released),
        (110, all_released)] demo_handler) ! 0 = True
   \<and> last_state (scans [(100, all_pressed)] demo_handler) ! 0 = True
   \<and> last_state (scans [(100, all_pressed), (110, all_released)] demo_handler) ! 0 = True
   \<and> last_state (scans [(100, all_pressed), (110, all_released), (120, all_pressed)]
        demo_handler) ! 0 = True
   \<and> last_state (scans [(100, all_pressed), (110, all_released), (120, all_pressed),
        (130, all_released)] demo_handler) ! 0 = False"
proof -
  have wf: "wf_handler demo_handler" "0 < N demo_handler"
    by (simp_all add: demo_handler_def button_eval)
  have hyp: "all_released (pins demo_handler ! 0) = last_state demo_handler ! 0"
    "all_pressed (pins demo_handler ! 0) \<noteq> last_state demo_handler ! 0"
    "debounce_ms (timing demo_handler) \<le> 100 - last_state_change demo_handler ! 0"
    "\<forall>sample \<in> set [(101 :: 32 word, all_released), (110, all_released)].
        fst sample - 100 < debounce_ms (timing demo_handler)"
    by (simp_all add: demo_handler_def button_eval)
  note glitch = debounce_is_lockout[OF wf, of "[]" all_pressed 100 all_released
      "[(101, all_released), (110, all_released)]" 99]
  have latched: "last_state (scans [(99, all_released), (100, all_pressed), (101, all_released),
        (110, all_released)] demo_handler) ! 0 = all_pressed (pins demo_handler ! 0)"
    using glitch hyp by blast
  have accepted: "last_state (update all_pressed 100 demo_handler) ! 0
        = all_pressed (pins demo_handler ! 0)"
    using glitch hyp by blast
  show ?thesis
    using latched accepted
      debounce_is_lockout[of "update all_pressed 100 demo_handler" 0
        "[(110, all_released), (120, all_pressed), (129, all_released)]"]
    by (simp add: ButtonHandler_init_def demo_handler_def button_eval)
qed

section \<open>Properties of the motor driver\<close>

subsection \<open>Basic facts\<close>

declare setFreewheel.simps(2) [simp del] startSoftBrake.simps(2) [simp del]

lemma uint16_le_1: "uint (w :: 16 word) \<le> 1 \<Longrightarrow> w = 0 \<or> w = 1"
proof -
  assume "uint w \<le> 1"
  then have "uint w = 0 \<or> uint w = 1" using uint_ge_0[of w] by linarith
  then show ?thesis
    by (metis uint_0_eq uint_1_eq word_uint_eq_iff)
qed

lemma level_of_low: "uint pwm \<le> 1 \<Longrightarrow> level_of pwm \<le> f32 (1 / 1000)"
  using uint16_le_1[of pwm] by (auto simp: level_of_0 level_of_1 low_cutoff_val)

lemma clamp_pwm_uint:
  "uint (word_of_int (clamp (uint (pwm :: 16 word)) 0 kPwmMaxInput) :: 16 word)
   = clamp (uint pwm) 0 kPwmMaxInput"
proof -
  have "0 \<le> clamp (uint pwm) 0 kPwmMaxInput \<and> clamp (uint pwm) 0 kPwmMaxInput \<le> 1023"
    by (simp add: clamp_def kPwmMaxInput_val)
  then show ?thesis
    by (simp add: uint_word_of_int take_bit_int_eq_self)
qed

lemma recompute_eq:
  "soft_hz s \<noteq> 0 \<Longrightarrow>
   recomputeSoftDurations s
     = Inr (s\<lparr>soft_level := level_of (soft_brake_pwm s),
              soft_us_brake := floor_phase (raw_brake (soft_hz s) (level_of (soft_brake_pwm s))),
              soft_us_coast := floor_phase (raw_coast (soft_hz s) (level_of (soft_brake_pwm s)))\<rparr>)"
  by (simp add: recomputeSoftDurations_def level_of_def Let_def floor_phase_def raw_brake_def
      raw_coast_def period_of_def)

lemma recompute_zero_hz: "soft_hz s = 0 \<Longrightarrow> recomputeSoftDurations s = Inl FloatToIntUndefined"
  by (simp add: recomputeSoftDurations_def Let_def)

lemma stopSoftBrake_frame:
  "beh (stopSoftBrake s) = beh s \<and> soft_hz (stopSoftBrake s) = soft_hz s \<and>
   soft_brake_pwm (stopSoftBrake s) = soft_brake_pwm s \<and> \<not> soft_active (stopSoftBrake s)"
  by (simp add: stopSoftBrake_def)

lemma setup_demo:
  "setup_cfg_beh all_ok DRIVE_MCPWM default_behavior HBridgeMotor_new = Inr demo_motor"
  by (simp add: setup_cfg_beh_def all_ok_def DRIVE_MCPWM_def default_behavior_def
      HBridgeMotor_new_def demo_motor_def setEnable_def Let_def)

lemma setup_motor_with:
  "setup_cfg_beh all_ok DRIVE_MCPWM b HBridgeMotor_new = Inr (motor_with b)"
  by (simp add: setup_cfg_beh_def all_ok_def DRIVE_MCPWM_def motor_with_def
      HBridgeMotor_new_def demo_motor_def setEnable_def Let_def)

text \<open>\<^verbatim>\<open>startSoftBrake\<close> with the result of \<^verbatim>\<open>recomputeSoftDurations\<close> written out.\<close>

lemma startSoftBrake_Suc:
  assumes "soft_hz s \<noteq> 0"
  shows "startSoftBrake (Suc n) s =
    (let lv = level_of (soft_brake_pwm s);
         s1 = s\<lparr>soft_level := lv,
                 soft_us_brake := floor_phase (raw_brake (soft_hz s) lv),
                 soft_us_coast := floor_phase (raw_coast (soft_hz s) lv)\<rparr>
     in if lv \<le> f32 (1 / 1000) then setFreewheel n (stopSoftBrake s1)
        else if lv \<ge> f32 (999 / 1000) then
          Some (Inr (writeAB 100 100 (setEnable True (stopSoftBrake s1))))
        else
          let s2 = s\<lparr>soft_level := lv, soft_us_brake := raw_brake (soft_hz s) lv,
                      soft_us_coast := raw_coast (soft_hz s) lv\<rparr>
          in if \<not> soft_active s then
               Some (scheduleNextPhase (applyPhase Coast (s2\<lparr>soft_phase := Coast, soft_active := True\<rparr>)))
             else Some (Inr s2))"
  by (simp add: startSoftBrake.simps recompute_eq[OF assms] Let_def raw_brake_def raw_coast_def
      period_of_def)

lemma setSpeed_zero:
  "clamp speed 0 kPwmMaxInput = 0 \<Longrightarrow> setSpeed n speed dir s = startSoftBrake n s"
  by (simp add: setSpeed_def)

lemmas motor_eval = demo_motor_def HBridgeMotor_new_def default_behavior_def kDefaultBrake_def
  setEnable_def writeAB_def stopSoftBrake_def applyPhase_def scheduleNextPhase_def
  kMinPhaseUs_def floor_phase_def Let_def

lemma demo_motor_fields:
  "soft_hz demo_motor = 300" "soft_brake_pwm demo_motor = 50" "\<not> soft_active demo_motor"
  by (simp_all add: motor_eval)

lemma dithering_reached: "setSpeed 1 0 CW demo_motor = Some (Inr dithering_motor)"
proof -
  have "setSpeed 1 0 CW demo_motor = startSoftBrake (Suc 0) demo_motor"
    by (simp add: setSpeed_zero clamp_def kPwmMaxInput_val)
  also have "\<dots> = Some (Inr dithering_motor)"
    by (simp add: startSoftBrake_Suc demo_motor_fields level_of_50 low_cutoff_val high_cutoff_val
        raw_300_50[unfolded level_of_50])
       (simp add: dithering_motor_def motor_eval)
  finally show ?thesis .
qed

subsection \<open>Freewheel mode chosen by setup\<close>

text \<open>
  Claim C9, as the code has it. \<^verbatim>\<open>setup(cfg)\<close>, which uses the default profile, stores
  \<open>HiZ_Awake\<close> when the enable pin is negative. \<^verbatim>\<open>setup(cfg, beh)\<close> stores the caller's
  profile as it is, whatever the enable pin. Without an enable pin \<^verbatim>\<open>setEnable\<close> writes
  nothing, so the two modes drive the outputs alike.
\<close>

theorem setup_freewheel_mode:
  "(setup_cfg r cfg s = Inr s' \<longrightarrow> sint (cfg_en_pin cfg) < 0 \<longrightarrow>
      freewheel_mode (beh s') = HiZ_Awake \<and> \<not> use_en s')
   \<and> (setup_cfg_beh r cfg b s = Inr s'' \<longrightarrow>
        beh s'' = b \<and> use_en s'' = (0 \<le> sint (cfg_en_pin cfg)))
   \<and> (\<not> use_en s'' \<longrightarrow> setEnable lvl s'' = s'')"
  by (auto simp: setup_cfg_def setup_cfg_beh_def default_behavior_def setEnable_def Let_def
      split: if_splits)

theorem setup_freewheel_mode_witness:
  "sint (cfg_en_pin no_en_cfg) < 0
   \<and> setup_cfg all_ok no_en_cfg HBridgeMotor_new = Inr no_en_awake
   \<and> freewheel_mode (beh no_en_awake) = HiZ_Awake
   \<and> setup_cfg_beh all_ok no_en_cfg dither_light HBridgeMotor_new
        = Inr (no_en_awake\<lparr>beh := dither_light\<rparr>)
   \<and> beh (no_en_awake\<lparr>beh := dither_light\<rparr>) = dither_light
   \<and> \<not> use_en (no_en_awake\<lparr>beh := dither_light\<rparr>)
   \<and> setEnable False (no_en_awake\<lparr>beh := dither_light\<rparr>) = no_en_awake\<lparr>beh := dither_light\<rparr>"
proof -
  have neg: "sint (cfg_en_pin no_en_cfg) < 0"
    by (simp add: no_en_cfg_def)
  have one: "setup_cfg all_ok no_en_cfg HBridgeMotor_new = Inr no_en_awake"
    by (simp add: setup_cfg_def setup_cfg_beh_def all_ok_def no_en_cfg_def default_behavior_def
        HBridgeMotor_new_def no_en_awake_def Let_def)
  have two: "setup_cfg_beh all_ok no_en_cfg dither_light HBridgeMotor_new
        = Inr (no_en_awake\<lparr>beh := dither_light\<rparr>)"
    by (simp add: setup_cfg_beh_def all_ok_def no_en_cfg_def default_behavior_def dither_light_def
        HBridgeMotor_new_def no_en_awake_def Let_def)
  note inst = setup_freewheel_mode[where r = all_ok and cfg = no_en_cfg and s = HBridgeMotor_new
      and s' = no_en_awake and b = dither_light and s'' = "no_en_awake\<lparr>beh := dither_light\<rparr>"
      and lvl = False]
  from inst neg one two show ?thesis by auto
qed

text \<open>
  A caller-supplied profile asking for \<open>HiZ\<close> on a pin mapping without enable pin: the
  stored mode is still \<open>HiZ\<close>.
\<close>

theorem setup_freewheel_mode_counterexample:
  "sint (cfg_en_pin no_en_cfg) < 0
   \<and> freewheel_mode default_behavior = HiZ
   \<and> setup_cfg_beh all_ok no_en_cfg default_behavior HBridgeMotor_new
       = Inr (no_en_awake\<lparr>beh := default_behavior\<rparr>)
   \<and> freewheel_mode (beh (no_en_awake\<lparr>beh := default_behavior\<rparr>)) = HiZ"
  by (simp add: setup_cfg_beh_def all_ok_def no_en_cfg_def default_behavior_def
      HBridgeMotor_new_def no_en_awake_def setEnable_def Let_def)

subsection \<open>The recursion between setFreewheel and startSoftBrake\<close>

lemma stuck_stop: "stuck s \<Longrightarrow> stuck (stopSoftBrake s)"
  by (simp add: stuck_def stopSoftBrake_frame)

lemma diverges_aux:
  "(\<forall>s. stuck s \<longrightarrow> setFreewheel n s = None)
   \<and> (\<forall>s. stuck s \<and> uint (soft_brake_pwm s) \<le> 1 \<longrightarrow> startSoftBrake n s = None)"
proof (induction n)
  case 0
  then show ?case by simp
next
  case (Suc n)
  have fw: "setFreewheel (Suc n) s = None" if st: "stuck s" for s
  proof -
    let ?s1 = "stopSoftBrake s"
    let ?s2 = "?s1\<lparr>soft_brake_pwm := word_of_int (clamp (uint (dither_pwm (beh ?s1))) 0 kPwmMaxInput)\<rparr>"
    have s1: "stuck ?s1" "\<not> soft_active ?s1" using st by (simp_all add: stuck_stop stopSoftBrake_frame)
    have set: "setSoftBrakePWM (dither_pwm (beh ?s1)) ?s1 = Inr ?s2"
      using s1(2) by (simp add: setSoftBrakePWM_def Let_def)
    have "uint (soft_brake_pwm ?s2) = clamp (uint (dither_pwm (beh ?s1))) 0 kPwmMaxInput"
      by (simp add: clamp_pwm_uint)
    also have "\<dots> \<le> 1" using s1(1) by (simp add: stuck_def clamp_def kPwmMaxInput_val)
    finally have low: "uint (soft_brake_pwm ?s2) \<le> 1" .
    have "stuck ?s2" using s1(1) by (simp add: stuck_def)
    then have "startSoftBrake n ?s2 = None" using Suc low by blast
    then show ?thesis using s1(1) set by (simp add: setFreewheel.simps stuck_def Let_def)
  qed
  have sb: "startSoftBrake (Suc n) s = None"
    if st: "stuck s" and low: "uint (soft_brake_pwm s) \<le> 1" for s
  proof -
    let ?s1 = "s\<lparr>soft_level := level_of (soft_brake_pwm s),
              soft_us_brake := floor_phase (raw_brake (soft_hz s) (level_of (soft_brake_pwm s))),
              soft_us_coast := floor_phase (raw_coast (soft_hz s) (level_of (soft_brake_pwm s)))\<rparr>"
    have rc: "recomputeSoftDurations s = Inr ?s1"
      using st by (intro recompute_eq) (simp add: stuck_def)
    have "stuck (stopSoftBrake ?s1)" using st by (intro stuck_stop) (simp add: stuck_def)
    then have "setFreewheel n (stopSoftBrake ?s1) = None" using Suc by blast
    then show ?thesis using rc level_of_low[OF low] by (simp add: startSoftBrake.simps)
  qed
  show ?case using fw sb by blast
qed

text \<open>
  Claim C10 fails on the code. With freewheel mode \<open>DitherBrake\<close>, a dither duty of 0 or 1
  and a nonzero frequency, \<^verbatim>\<open>setFreewheel\<close> stores the dither duty and calls
  \<^verbatim>\<open>startSoftBrake\<close>, which finds the level at or below the cut-off \<^verbatim>\<open>0.001f\<close> and calls
  \<^verbatim>\<open>setFreewheel\<close> again: within no bound on the nesting does either call return.
\<close>

theorem freewheel_recursion_diverges:
  assumes "freewheel_mode (beh s) = DitherBrake" and "uint (dither_pwm (beh s)) \<le> 1"
    and "soft_hz s \<noteq> 0"
  shows "setFreewheel n s = None
       \<and> (uint (soft_brake_pwm s) \<le> 1 \<longrightarrow> startSoftBrake n s = None)"
  using assms diverges_aux[of n] by (simp add: stuck_def)

theorem freewheel_recursion_diverges_witness:
  "setup_cfg_beh all_ok DRIVE_MCPWM dither_zero HBridgeMotor_new = Inr (motor_with dither_zero)
   \<and> freewheel_mode (beh (motor_with dither_zero)) = DitherBrake
   \<and> uint (dither_pwm (beh (motor_with dither_zero))) \<le> 1
   \<and> soft_hz (motor_with dither_zero) \<noteq> 0
   \<and> (\<forall>n. setFreewheel n (motor_with dither_zero) = None)
   \<and> freewheel_mode (beh stuck_motor) = DitherBrake
   \<and> uint (dither_pwm (beh stuck_motor)) \<le> 1
   \<and> soft_hz stuck_motor \<noteq> 0
   \<and> uint (soft_brake_pwm stuck_motor) \<le> 1
   \<and> (\<forall>n. startSoftBrake n stuck_motor = None)"
proof -
  have a: "freewheel_mode (beh (motor_with dither_zero)) = DitherBrake"
    and b: "uint (dither_pwm (beh (motor_with dither_zero))) \<le> 1"
    and c: "soft_hz (motor_with dither_zero) \<noteq> 0"
    by (simp_all add: motor_with_def dither_zero_def)
  have a': "freewheel_mode (beh stuck_motor) = DitherBrake"
    and b': "uint (dither_pwm (beh stuck_motor)) \<le> 1"
    and c': "soft_hz stuck_motor \<noteq> 0"
    and d': "uint (soft_brake_pwm stuck_motor) \<le> 1"
    by (simp_all add: stuck_motor_def motor_with_def dither_zero_def)
  have fw: "setFreewheel n (motor_with dither_zero) = None" for n
    using freewheel_recursion_diverges[OF a b c, of n] by simp
  have sb: "startSoftBrake n stuck_motor = None" for n
    using freewheel_recursion_diverges[OF a' b' c', of n] d' by simp
  show ?thesis using a b c a' b' c' d' fw sb setup_motor_with[of dither_zero] by simp
qed

subsection \<open>Changing the soft-brake duty while dithering\<close>

lemma clamp_zero_pwm: "clamp (0::int) 0 kPwmMaxInput = 0"
  by (simp add: clamp_def kPwmMaxInput_val)

text \<open>
  Claim C4, as the code has it. \<^verbatim>\<open>setSoftBrakePWM(0)\<close> while the dither cycle is active
  stores duty 0 and recomputes the durations in place (level 0, brake time 0, coast time the
  floored truncated period). It does not call \<^verbatim>\<open>setFreewheel\<close>: the cycle stays active,
  the pending timer stays armed and no output is written. The fall-through to
  \<^verbatim>\<open>setFreewheel\<close> happens when \<^verbatim>\<open>startSoftBrake\<close> next runs, as on \<^verbatim>\<open>setSpeed(0, dir)\<close>.
\<close>

theorem setSoftBrakePWM_zero_keeps_dithering:
  assumes "soft_active s" and "soft_hz s \<noteq> 0"
  shows "\<exists>s'. setSoftBrakePWM 0 s = Inr s'
           \<and> s' = s\<lparr>soft_brake_pwm := 0, soft_level := 0, soft_us_brake := 0,
                    soft_us_coast := floor_phase (trunc (period_of (soft_hz s)))\<rparr>
           \<and> soft_active s' \<and> timer_armed s' = timer_armed s \<and> hw_log s' = hw_log s
           \<and> duty_A s' = duty_A s \<and> duty_B s' = duty_B s
           \<and> startSoftBrake (Suc n) s' = setFreewheel n (stopSoftBrake s')"
proof -
  let ?s0 = "s\<lparr>soft_brake_pwm := 0\<rparr>"
  let ?s' = "s\<lparr>soft_brake_pwm := 0, soft_level := 0, soft_us_brake := 0,
                    soft_us_coast := floor_phase (trunc (period_of (soft_hz s)))\<rparr>"
  have rc: "recomputeSoftDurations ?s0 = Inr ?s'"
    using assms(2)
    by (simp add: recompute_eq level_of_0 raw_brake_zero raw_coast_def floor_phase_def kMinPhaseUs_def)
  have set: "setSoftBrakePWM 0 s = Inr ?s'"
    using assms(1) rc by (simp add: setSoftBrakePWM_def clamp_zero_pwm Let_def)
  have again: "startSoftBrake (Suc n) ?s' = setFreewheel n (stopSoftBrake ?s')"
    using assms(2)
    by (simp add: startSoftBrake_Suc level_of_0 low_cutoff_val raw_brake_zero raw_coast_def
        floor_phase_def kMinPhaseUs_def)
  show ?thesis using set again assms(1) by simp
qed


theorem setSoftBrakePWM_zero_keeps_dithering_witness:
  "soft_active dithering_motor \<and> soft_hz dithering_motor \<noteq> 0
   \<and> setSoftBrakePWM 0 dithering_motor = Inr zero_duty_motor
   \<and> soft_active zero_duty_motor
   \<and> startSoftBrake (Suc 1) zero_duty_motor = setFreewheel 1 (stopSoftBrake zero_duty_motor)"
proof -
  have a: "soft_active dithering_motor" and b: "soft_hz dithering_motor \<noteq> 0"
    by (simp_all add: dithering_motor_def motor_eval)
  have z: "dithering_motor\<lparr>soft_brake_pwm := 0, soft_level := 0, soft_us_brake := 0,
       soft_us_coast := floor_phase (trunc (period_of (soft_hz dithering_motor)))\<rparr> = zero_duty_motor"
    by (simp add: zero_duty_motor_def dithering_motor_def demo_motor_def HBridgeMotor_new_def
        trunc_period_300 floor_phase_def kMinPhaseUs_def)
  from setSoftBrakePWM_zero_keeps_dithering[OF a b, of 1] z a b
  show ?thesis by auto
qed

text \<open>
  The dithering driver of \<^verbatim>\<open>main.cpp\<close>: after \<^verbatim>\<open>setSoftBrakePWM(0)\<close> the cycle is still
  active with its timer pending, and when the timer fires the brake phase is applied for
  another 1500 microseconds.
\<close>

theorem setSoftBrakePWM_zero_counterexample:
  "setSpeed 1 0 CW demo_motor = Some (Inr dithering_motor)
   \<and> soft_active dithering_motor
   \<and> setSoftBrakePWM 0 dithering_motor = Inr zero_duty_motor
   \<and> soft_active zero_duty_motor
   \<and> timer_armed zero_duty_motor = Some 3171
   \<and> hw_log zero_duty_motor = hw_log dithering_motor
   \<and> timer_fires zero_duty_motor = Inr zero_duty_braking
   \<and> duty_A zero_duty_braking = 100 \<and> duty_B zero_duty_braking = 100
   \<and> timer_armed zero_duty_braking = Some 1500"
proof -
  have hz: "soft_hz (dithering_motor\<lparr>soft_brake_pwm := 0\<rparr>) = 300"
    by (simp add: dithering_motor_def motor_eval)
  have rc: "recomputeSoftDurations (dithering_motor\<lparr>soft_brake_pwm := 0\<rparr>) = Inr zero_duty_motor"
    by (subst recompute_eq)
       (simp_all add: hz level_of_0 raw_brake_zero raw_coast_def trunc_period_300
          zero_duty_motor_def floor_phase_def kMinPhaseUs_def)
  have set: "setSoftBrakePWM 0 dithering_motor = Inr zero_duty_motor"
    using rc by (simp add: setSoftBrakePWM_def clamp_def kPwmMaxInput_val Let_def dithering_motor_def)
  have fire: "timer_fires zero_duty_motor = Inr zero_duty_braking"
    by (simp add: timer_fires_def softBrakeISR_def zero_duty_braking_def zero_duty_motor_def
        dithering_motor_def motor_eval)
  show ?thesis using dithering_reached set fire
    by (simp add: zero_duty_braking_def zero_duty_motor_def dithering_motor_def)
qed

subsection \<open>Soft-brake phase durations\<close>

lemma floor_phase_bounds:
  "(kMinPhaseUs \<le> floor_phase us \<or> floor_phase us \<le> 0)
   \<and> us \<le> floor_phase us \<and> floor_phase us \<le> us + (kMinPhaseUs - 1)"
  by (auto simp: floor_phase_def kMinPhaseUs_def)

lemma schedule_arms:
  assumes "soft_active s" and "soft_timer s" and "timer_armed s = None"
  shows "scheduleNextPhase s
     = Inr (s\<lparr>timer_armed := Some (max kMinPhaseUs (if soft_phase s = Brake then soft_us_brake s else soft_us_coast s)),
              hw_log := hw_log s @ [TimerStartOnce (max kMinPhaseUs (if soft_phase s = Brake then soft_us_brake s else soft_us_coast s))]\<rparr>)"
  using assms by (simp add: scheduleNextPhase_def Let_def max_def)

lemma motor_inv_stop: "motor_inv s \<Longrightarrow> motor_inv (stopSoftBrake s)"
  by (auto simp: motor_inv_def stopSoftBrake_def)

lemma startSoftBrake_engages:
  assumes hz: "soft_hz s \<noteq> 0" and inv: "motor_inv s"
    and lo: "f32 (1 / 1000) < level_of (soft_brake_pwm s)"
    and hi: "level_of (soft_brake_pwm s) < f32 (999 / 1000)"
  shows "\<exists>s'. startSoftBrake (Suc n) s = Some (Inr s') \<and> soft_active s' \<and> motor_inv s'
            \<and> soft_us_brake s' = raw_brake (soft_hz s) (level_of (soft_brake_pwm s))
            \<and> soft_us_brake s' + soft_us_coast s' = trunc (period_of (soft_hz s))"
proof -
  let ?lv = "level_of (soft_brake_pwm s)"
  let ?b = "raw_brake (soft_hz s) ?lv" and ?c = "raw_coast (soft_hz s) ?lv"
  let ?s2 = "s\<lparr>soft_level := ?lv, soft_us_brake := ?b, soft_us_coast := ?c\<rparr>"
  have sum: "?b + ?c = trunc (period_of (soft_hz s))" by (simp add: raw_coast_def)
  show ?thesis
  proof (cases "soft_active s")
    case True
    then have "startSoftBrake (Suc n) s = Some (Inr ?s2)"
      using lo hi by (simp add: startSoftBrake_Suc[OF hz] Let_def)
    moreover have "motor_inv ?s2" using inv by (simp add: motor_inv_def)
    ultimately show ?thesis using True sum by simp
  next
    case False
    let ?s3 = "writeAB 0 0 (?s2\<lparr>soft_phase := Coast, soft_active := True\<rparr>)"
    let ?d = "max kMinPhaseUs ?c"
    let ?s4 = "?s3\<lparr>timer_armed := Some ?d, hw_log := hw_log ?s3 @ [TimerStartOnce ?d]\<rparr>"
    have idle: "soft_timer s" "timer_armed s = None" using inv False by (auto simp: motor_inv_def)
    have "scheduleNextPhase ?s3 = Inr ?s4"
      using idle by (subst schedule_arms) (simp_all add: writeAB_def)
    then have "startSoftBrake (Suc n) s = Some (Inr ?s4)"
      using lo hi False by (simp add: startSoftBrake_Suc[OF hz] Let_def applyPhase_def)
    moreover have "motor_inv ?s4" using idle by (simp add: motor_inv_def writeAB_def)
    ultimately show ?thesis using sum by (simp add: writeAB_def)
  qed
qed

text \<open>
  Claim C2, as the code has it, for a nonzero dither frequency.
  \<^verbatim>\<open>recomputeSoftDurations\<close> leaves each stored duration either at least \<open>kMinPhaseUs\<close>
  or at most 0, and their sum between the truncated period and the truncated period plus
  twice \<open>kMinPhaseUs - 1\<close>. When \<^verbatim>\<open>startSoftBrake\<close> engages or continues the dither (level
  strictly between the cut-offs \<^verbatim>\<open>0.001f\<close> and \<^verbatim>\<open>0.999f\<close>) it stores the exact split
  again, without the floor: brake plus coast time is the truncated period. The floor is
  applied where the timer is armed: the armed delay is the larger of \<open>kMinPhaseUs\<close> and
  the duration of the current phase.
\<close>

theorem soft_brake_durations:
  assumes "soft_hz s \<noteq> 0"
  shows "(\<exists>s'. recomputeSoftDurations s = Inr s'
            \<and> (kMinPhaseUs \<le> soft_us_brake s' \<or> soft_us_brake s' \<le> 0)
            \<and> (kMinPhaseUs \<le> soft_us_coast s' \<or> soft_us_coast s' \<le> 0)
            \<and> trunc (period_of (soft_hz s)) \<le> soft_us_brake s' + soft_us_coast s'
            \<and> soft_us_brake s' + soft_us_coast s'
                  \<le> trunc (period_of (soft_hz s)) + 2 * (kMinPhaseUs - 1))
       \<and> (motor_inv s \<and> f32 (1 / 1000) < level_of (soft_brake_pwm s)
            \<and> level_of (soft_brake_pwm s) < f32 (999 / 1000) \<longrightarrow>
            (\<exists>s'. startSoftBrake (Suc n) s = Some (Inr s') \<and> soft_active s' \<and> motor_inv s'
                \<and> soft_us_brake s' = raw_brake (soft_hz s) (level_of (soft_brake_pwm s))
                \<and> soft_us_brake s' + soft_us_coast s' = trunc (period_of (soft_hz s))))
       \<and> (soft_active s \<and> soft_timer s \<and> timer_armed s = None \<longrightarrow>
            (\<exists>d. scheduleNextPhase s
                    = Inr (s\<lparr>timer_armed := Some d, hw_log := hw_log s @ [TimerStartOnce d]\<rparr>)
                 \<and> kMinPhaseUs \<le> d
                 \<and> d = max kMinPhaseUs
                          (if soft_phase s = Brake then soft_us_brake s else soft_us_coast s)))"
proof (intro conjI impI)
  let ?lv = "level_of (soft_brake_pwm s)"
  let ?b = "raw_brake (soft_hz s) ?lv" and ?c = "raw_coast (soft_hz s) ?lv"
  have sum: "?b + ?c = trunc (period_of (soft_hz s))" by (simp add: raw_coast_def)
  show "\<exists>s'. recomputeSoftDurations s = Inr s'
            \<and> (kMinPhaseUs \<le> soft_us_brake s' \<or> soft_us_brake s' \<le> 0)
            \<and> (kMinPhaseUs \<le> soft_us_coast s' \<or> soft_us_coast s' \<le> 0)
            \<and> trunc (period_of (soft_hz s)) \<le> soft_us_brake s' + soft_us_coast s'
            \<and> soft_us_brake s' + soft_us_coast s'
                  \<le> trunc (period_of (soft_hz s)) + 2 * (kMinPhaseUs - 1)"
    using recompute_eq[OF assms] floor_phase_bounds[of ?b] floor_phase_bounds[of ?c] sum
    by auto
next
  assume "motor_inv s \<and> f32 (1 / 1000) < level_of (soft_brake_pwm s)
            \<and> level_of (soft_brake_pwm s) < f32 (999 / 1000)"
  then show "\<exists>s'. startSoftBrake (Suc n) s = Some (Inr s') \<and> soft_active s' \<and> motor_inv s'
                \<and> soft_us_brake s' = raw_brake (soft_hz s) (level_of (soft_brake_pwm s))
                \<and> soft_us_brake s' + soft_us_coast s' = trunc (period_of (soft_hz s))"
    using startSoftBrake_engages[OF assms, of n] by blast
next
  assume "soft_active s \<and> soft_timer s \<and> timer_armed s = None"
  then show "\<exists>d. scheduleNextPhase s
                    = Inr (s\<lparr>timer_armed := Some d, hw_log := hw_log s @ [TimerStartOnce d]\<rparr>)
                 \<and> kMinPhaseUs \<le> d
                 \<and> d = max kMinPhaseUs
                          (if soft_phase s = Brake then soft_us_brake s else soft_us_coast s)"
    using schedule_arms[of s] by simp
qed


lemma half_motor_fields:
  "soft_hz half_motor = 300" "soft_brake_pwm half_motor = 512" "\<not> soft_active half_motor"
  "motor_inv half_motor"
  by (simp_all add: half_motor_def motor_inv_def motor_eval)

lemma half_recompute:
  "recomputeSoftDurations half_motor
     = Inr (half_motor\<lparr>soft_level := 1049601 / 2097152, soft_us_brake := 1668, soft_us_coast := 1665\<rparr>)"
  by (simp add: recompute_eq half_motor_fields level_of_512 raw_300_512[unfolded level_of_512]
      floor_phase_def kMinPhaseUs_def)

lemma half_dithering_reached: "startSoftBrake (Suc 0) half_motor = Some (Inr half_dithering)"
  by (simp add: startSoftBrake_Suc half_motor_fields level_of_512 low_cutoff_val high_cutoff_val
        raw_300_512[unfolded level_of_512])
     (simp add: half_dithering_def half_motor_def motor_eval)

text \<open>
  Duty 512 of 1023 at 300 Hz: the level is \<open>1049601 / 2097152\<close> (about 0.5005), the
  truncated period 3333, the brake time 1668 and the coast time 1665 microseconds.
\<close>

theorem soft_brake_durations_witness:
  "soft_hz half_motor \<noteq> 0 \<and> motor_inv half_motor
   \<and> f32 (1 / 1000) < level_of (soft_brake_pwm half_motor)
   \<and> level_of (soft_brake_pwm half_motor) < f32 (999 / 1000)
   \<and> level_of (soft_brake_pwm half_motor) = 1049601 / 2097152
   \<and> recomputeSoftDurations half_motor
        = Inr (half_motor\<lparr>soft_level := 1049601 / 2097152, soft_us_brake := 1668,
                 soft_us_coast := 1665\<rparr>)
   \<and> startSoftBrake (Suc 0) half_motor = Some (Inr half_dithering)
   \<and> soft_us_brake half_dithering = 1668 \<and> soft_us_coast half_dithering = 1665
   \<and> soft_us_brake half_dithering + soft_us_coast half_dithering
        = trunc (period_of (soft_hz half_motor))
   \<and> trunc (period_of (soft_hz half_motor)) = 3333
   \<and> timer_armed half_dithering = Some 1665
   \<and> soft_hz brake_phase_motor \<noteq> 0 \<and> soft_active brake_phase_motor
   \<and> soft_timer brake_phase_motor \<and> timer_armed brake_phase_motor = None
   \<and> soft_phase brake_phase_motor = Brake \<and> soft_us_brake brake_phase_motor = 162
   \<and> scheduleNextPhase brake_phase_motor
        = Inr (brake_phase_motor\<lparr>timer_armed := Some 1500,
                 hw_log := hw_log brake_phase_motor @ [TimerStartOnce 1500]\<rparr>)"
proof -
  have hz: "soft_hz half_motor \<noteq> 0" by (simp add: half_motor_fields)
  have lv: "f32 (1 / 1000) < level_of (soft_brake_pwm half_motor)"
    "level_of (soft_brake_pwm half_motor) < f32 (999 / 1000)"
    "level_of (soft_brake_pwm half_motor) = 1049601 / 2097152"
    by (simp_all add: half_motor_fields level_of_512 low_cutoff_val high_cutoff_val)
  from soft_brake_durations[OF hz, of 0] half_motor_fields(4) lv(1,2)
  obtain s' where s': "startSoftBrake (Suc 0) half_motor = Some (Inr s')"
    "soft_us_brake s' + soft_us_coast s' = trunc (period_of (soft_hz half_motor))"
    by blast
  from s'(1) half_dithering_reached have "s' = half_dithering" by simp
  with s'(2) have sum: "soft_us_brake half_dithering + soft_us_coast half_dithering
        = trunc (period_of (soft_hz half_motor))" by simp
  have vals: "soft_us_brake half_dithering = 1668" "soft_us_coast half_dithering = 1665"
    "timer_armed half_dithering = Some 1665"
    by (simp_all add: half_dithering_def)
  have bp: "soft_hz brake_phase_motor \<noteq> 0" "soft_active brake_phase_motor"
    "soft_timer brake_phase_motor" "timer_armed brake_phase_motor = None"
    "soft_phase brake_phase_motor = Brake" "soft_us_brake brake_phase_motor = 162"
    by (simp_all add: brake_phase_motor_def dithering_motor_def motor_eval)
  from soft_brake_durations[OF bp(1), of 0] bp(2,3,4)
  obtain d where d: "scheduleNextPhase brake_phase_motor
        = Inr (brake_phase_motor\<lparr>timer_armed := Some d,
                 hw_log := hw_log brake_phase_motor @ [TimerStartOnce d]\<rparr>)"
    "d = max kMinPhaseUs (if soft_phase brake_phase_motor = Brake
           then soft_us_brake brake_phase_motor else soft_us_coast brake_phase_motor)"
    by blast
  from d(2) have "d = 1500" by (simp add: bp kMinPhaseUs_def)
  with d(1) have arm: "scheduleNextPhase brake_phase_motor
        = Inr (brake_phase_motor\<lparr>timer_armed := Some 1500,
                 hw_log := hw_log brake_phase_motor @ [TimerStartOnce 1500]\<rparr>)" by simp
  show ?thesis
    using hz half_motor_fields(4) lv half_recompute half_dithering_reached vals sum bp arm
    by (simp add: half_motor_fields trunc_period_300)
qed

text \<open>
  The default duty 50 at 300 Hz: once \<^verbatim>\<open>setSpeed(0, CW)\<close> has engaged the dither, the
  stored brake time is 162 microseconds, nonzero and below the floor.
\<close>

theorem soft_brake_durations_counterexample:
  "setSpeed 1 0 CW demo_motor = Some (Inr dithering_motor)
   \<and> soft_active dithering_motor
   \<and> 0 < soft_level dithering_motor \<and> soft_level dithering_motor < 1
   \<and> soft_us_brake dithering_motor = 162
   \<and> soft_us_brake dithering_motor \<noteq> 0
   \<and> soft_us_brake dithering_motor < kMinPhaseUs"
  using dithering_reached by (simp add: dithering_motor_def kMinPhaseUs_def)

subsection \<open>Driving\<close>

lemma ppc_range: "2 powi (- int 149) \<le> percent_per_count \<and> 1023 * percent_per_count < 2 powi (int 149 + 1)"
proof -
  have "(2::real) powi (- int 149) \<le> 2 powi (- 4)"
    by (intro power_int_increasing) simp_all
  also have "\<dots> \<le> percent_per_count" by (simp add: percent_per_count_val)
  finally have lo: "2 powi (- int 149) \<le> percent_per_count" .
  have "1023 * percent_per_count < 2 powi 7" by (simp add: percent_per_count_val)
  also have "(2::real) powi 7 \<le> 2 powi (int 149 + 1)"
    by (intro power_int_increasing) simp_all
  finally show ?thesis using lo by simp
qed

lemma drive_duty_pos_mono:
  assumes "1 \<le> c" and "c \<le> c'" and "c' \<le> 1023"
  shows "0 < drive_duty c \<and> drive_duty c \<le> drive_duty c'"
proof -
  let ?x = "real_of_int c * percent_per_count" and ?y = "real_of_int c' * percent_per_count"
  have p: "0 < percent_per_count" by (simp add: percent_per_count_val)
  have x0: "0 < ?x" using assms(1) p by simp
  have xy: "?x \<le> ?y" using assms(2) p by (simp add: mult_right_mono)
  have "percent_per_count \<le> ?x" using assms(1) p by (simp add: mult_le_cancel_right1)
  then have lo: "2 powi (- int 149) \<le> ?x" using ppc_range by linarith
  have "?y \<le> 1023 * percent_per_count" using assms(3) p by (simp add: mult_right_mono)
  then have hi: "?y < 2 powi (int 149 + 1)" using ppc_range by linarith
  have xhi: "?x < 2 powi (int 149 + 1)" using xy hi by linarith
  have "fl 24 149 ?x \<le> fl 24 149 ?y"
    by (rule fl_mono_pos[OF x0 xy lo hi]) simp
  moreover have "2 powi (binade 149 ?x) \<le> fl 24 149 ?x"
    using fl_pos_bounds[OF x0 lo xhi, of 24] by simp
  moreover have "(0::real) < 2 powi (binade 149 ?x)" by simp
  ultimately have "0 < fl 24 149 ?x \<and> fl 24 149 ?x \<le> fl 24 149 ?y" by linarith
  then show ?thesis by (simp add: drive_duty_def f32_def)
qed


lemma clamp_speed_range: "0 \<le> clamp speed 0 kPwmMaxInput \<and> clamp speed 0 kPwmMaxInput \<le> 1023"
  by (simp add: clamp_def kPwmMaxInput_val)

lemma clamped_word:
  assumes "0 \<le> c" and "c \<le> 1023"
  shows "((word_of_int c :: 16 word) = 0 \<longleftrightarrow> c = 0) \<and> real (unat (word_of_int c :: 16 word)) = real_of_int c"
proof -
  have u: "uint (word_of_int c :: 16 word) = c"
    using assms by (simp add: uint_word_of_int take_bit_int_eq_self)
  have "(word_of_int c :: 16 word) = 0 \<longleftrightarrow> uint (word_of_int c :: 16 word) = 0"
    by (simp add: uint_0_iff)
  moreover have "real (unat (word_of_int c :: 16 word)) = real_of_int (uint (word_of_int c :: 16 word))"
    by (metis of_int_of_nat_eq uint_nat)
  ultimately show ?thesis using u by simp
qed

lemma drive_duty_full: "drive_duty 1023 = 100"
  by (simp add: drive_duty_def percent_per_count_val fl_eval)

lemma setSpeed_drive:
  assumes "clamp speed 0 kPwmMaxInput \<noteq> 0"
  shows "setSpeed n speed dir s =
    Some (Inr (case dir of
       CW \<Rightarrow> writeAB (drive_duty (clamp speed 0 kPwmMaxInput)) 0 (setEnable True (stopSoftBrake s))
     | CCW \<Rightarrow> writeAB 0 (drive_duty (clamp speed 0 kPwmMaxInput)) (setEnable True (stopSoftBrake s))))"
  using assms clamped_word[of "clamp speed 0 kPwmMaxInput"] clamp_speed_range[of speed]
  by (cases dir) (simp_all add: setSpeed_def Let_def drive_duty_def)

text \<open>
  Claim C6. For a speed whose clamped value \<open>c\<close> is not zero, \<^verbatim>\<open>setSpeed\<close> returns with
  the duty \<open>drive_duty c\<close>, the \<^verbatim>\<open>float\<close> product of \<open>c\<close> and \<^verbatim>\<open>percent_per_count_\<close>,
  on output A for \<open>CW\<close> or on output B for \<open>CCW\<close> and 0 on the other output. That duty is
  positive and at most 100, so exactly one output carries a nonzero duty, and it does not
  decrease when the clamped speed grows.
\<close>

theorem setSpeed_drive_duty:
  assumes "clamp speed 0 kPwmMaxInput \<noteq> 0"
  shows "\<exists>s'. setSpeed n speed dir s = Some (Inr s')
      \<and> duty_A s' = (if dir = CW then drive_duty (clamp speed 0 kPwmMaxInput) else 0)
      \<and> duty_B s' = (if dir = CW then 0 else drive_duty (clamp speed 0 kPwmMaxInput))
      \<and> 0 < drive_duty (clamp speed 0 kPwmMaxInput)
      \<and> drive_duty (clamp speed 0 kPwmMaxInput) \<le> 100
      \<and> (duty_A s' \<noteq> 0) \<noteq> (duty_B s' \<noteq> 0)
      \<and> (\<forall>speed'. clamp speed 0 kPwmMaxInput \<le> clamp speed' 0 kPwmMaxInput \<longrightarrow>
            drive_duty (clamp speed 0 kPwmMaxInput) \<le> drive_duty (clamp speed' 0 kPwmMaxInput))"
proof -
  let ?c = "clamp speed 0 kPwmMaxInput"
  have c: "1 \<le> ?c" "?c \<le> 1023" using assms clamp_speed_range[of speed] by linarith+
  have pos: "0 < drive_duty ?c" using drive_duty_pos_mono[OF c(1) order_refl c(2)] by simp
  have top: "drive_duty ?c \<le> 100"
    using drive_duty_pos_mono[OF c(1) c(2) order_refl] drive_duty_full by simp
  have mono: "drive_duty ?c \<le> drive_duty (clamp speed' 0 kPwmMaxInput)"
    if "?c \<le> clamp speed' 0 kPwmMaxInput" for speed'
    using drive_duty_pos_mono[OF c(1) that] clamp_speed_range[of speed'] by simp
  have run: "\<exists>s'. setSpeed n speed dir s = Some (Inr s')
      \<and> duty_A s' = (if dir = CW then drive_duty ?c else 0)
      \<and> duty_B s' = (if dir = CW then 0 else drive_duty ?c)"
    using setSpeed_drive[OF assms, of n dir s] by (cases dir) (simp_all add: writeAB_def)
  then obtain s' where s': "setSpeed n speed dir s = Some (Inr s')"
      "duty_A s' = (if dir = CW then drive_duty ?c else 0)"
      "duty_B s' = (if dir = CW then 0 else drive_duty ?c)" by blast
  have one: "(duty_A s' \<noteq> 0) \<noteq> (duty_B s' \<noteq> 0)"
    using s'(2,3) pos by (cases dir) simp_all
  show ?thesis using s' pos top one mono by blast
qed

theorem setSpeed_drive_duty_witness:
  "clamp 100 0 kPwmMaxInput \<noteq> 0
   \<and> clamp 100 0 kPwmMaxInput \<le> clamp 2000 0 kPwmMaxInput
   \<and> clamp 2000 0 kPwmMaxInput = 1023
   \<and> 0 < drive_duty (clamp 100 0 kPwmMaxInput)
   \<and> drive_duty (clamp 100 0 kPwmMaxInput) \<le> drive_duty (clamp 2000 0 kPwmMaxInput)
   \<and> drive_duty (clamp 2000 0 kPwmMaxInput) = 100
   \<and> setSpeed 0 2000 CW demo_motor
        = Some (Inr (demo_motor\<lparr>duty_A := 100, duty_B := 0,
             hw_log := hw_log demo_motor @ [McpwmSetDuty MCPWM_OPR_A 100, McpwmSetDuty MCPWM_OPR_B 0]\<rparr>))"
proof -
  have a: "clamp 100 0 kPwmMaxInput \<noteq> 0" and b: "clamp 2000 0 kPwmMaxInput = 1023"
    and ab: "clamp 100 0 kPwmMaxInput \<le> clamp 2000 0 kPwmMaxInput"
    by (simp_all add: clamp_def kPwmMaxInput_val)
  from setSpeed_drive_duty[OF a, of 0 CW demo_motor] ab
  have d: "0 < drive_duty (clamp 100 0 kPwmMaxInput)"
    "drive_duty (clamp 100 0 kPwmMaxInput) \<le> drive_duty (clamp 2000 0 kPwmMaxInput)"
    by blast+
  have run: "setSpeed 0 2000 CW demo_motor
        = Some (Inr (demo_motor\<lparr>duty_A := 100, duty_B := 0,
             hw_log := hw_log demo_motor @ [McpwmSetDuty MCPWM_OPR_A 100, McpwmSetDuty MCPWM_OPR_B 0]\<rparr>))"
  proof -
    have ne: "clamp 2000 0 kPwmMaxInput \<noteq> 0" using b by simp
    show ?thesis
      unfolding setSpeed_drive[OF ne] b drive_duty_full by (simp add: motor_eval)
  qed
  show ?thesis using a b ab d run by (simp add: drive_duty_full)
qed

subsection \<open>What the soft-brake path establishes\<close>

lemma stopSoftBrake_log: "hw_log (stopSoftBrake s) = hw_log s @ stops s"
  by (simp add: stopSoftBrake_def stops_def)

lemma stopSoftBrake_inv: "motor_inv s \<Longrightarrow> motor_inv (stopSoftBrake s) \<and> quiet (stopSoftBrake s)"
  by (auto simp: motor_inv_def stopSoftBrake_def quiet_def timer_fires_def)

lemma stopSoftBrake_use_en [simp]: "use_en (stopSoftBrake s) = use_en s"
  by (simp add: stopSoftBrake_def)

lemma stopSoftBrake_idle: "\<not> soft_active s \<Longrightarrow> stopSoftBrake s = s"
  by (simp add: stopSoftBrake_def)

lemma quiet_iff: "quiet s \<longleftrightarrow> \<not> soft_active s \<and> timer_armed s = None"
  by (auto simp: quiet_def timer_fires_def)

lemma hard_brake_post:
  assumes "motor_inv s"
  shows "post_fw s (writeAB 100 100 (setEnable True (stopSoftBrake s)))"
  using assms
  by (auto simp: post_fw_def motor_inv_def frame_def outcome_def hard_brake_outcome_def
      writeAB_def setEnable_def stopSoftBrake_def stops_def)

lemma freewheel_hiz_post:
  assumes "motor_inv s" "freewheel_mode (beh s) \<noteq> DitherBrake"
  shows "post_fw s (writeAB 0 0 (setEnable (freewheel_mode (beh s) = HiZ_Awake) (stopSoftBrake s)))"
  using assms
  by (auto simp: post_fw_def motor_inv_def frame_def outcome_def freewheel_outcome_def
      writeAB_def setEnable_def stopSoftBrake_def stops_def)

lemma post_fw_sb: "post_fw s s' \<Longrightarrow> post_sb s s'"
  by (auto simp: post_fw_def post_sb_def)

lemma outcomes_aux:
  "(\<forall>s s'. motor_inv s \<and> setFreewheel n s = Some (Inr s') \<longrightarrow> post_fw s s')
   \<and> (\<forall>s s'. motor_inv s \<and> startSoftBrake n s = Some (Inr s') \<longrightarrow> post_sb s s')"
proof (induction n)
  case 0
  then show ?case by simp
next
  case (Suc n)
  have fw: "post_fw s s'" if inv: "motor_inv s" and run: "setFreewheel (Suc n) s = Some (Inr s')" for s s'
  proof (cases "freewheel_mode (beh s) = DitherBrake")
    case False
    then have "s' = writeAB 0 0 (setEnable (freewheel_mode (beh s) = HiZ_Awake) (stopSoftBrake s))"
      using run by (cases "freewheel_mode (beh s)") (simp_all add: setFreewheel.simps Let_def stopSoftBrake_frame)
    then show ?thesis using freewheel_hiz_post[OF inv False] by simp
  next
    case True
    let ?s1 = "stopSoftBrake s"
    let ?s2 = "?s1\<lparr>soft_brake_pwm := word_of_int (clamp (uint (dither_pwm (beh ?s1))) 0 kPwmMaxInput)\<rparr>"
    have s1: "motor_inv ?s1" "\<not> soft_active ?s1" "hw_log ?s1 = hw_log s @ stops s"
      using stopSoftBrake_inv[OF inv] by (simp_all add: quiet_iff stopSoftBrake_log)
    have set: "setSoftBrakePWM (dither_pwm (beh ?s1)) ?s1 = Inr ?s2"
      using s1(2) by (simp add: setSoftBrakePWM_def Let_def)
    have run2: "startSoftBrake n ?s2 = Some (Inr s')"
      using run True set by (simp add: setFreewheel.simps Let_def stopSoftBrake_frame)
    have "motor_inv ?s2" using s1(1) by (simp add: motor_inv_def)
    then have "post_sb ?s2 s'" using Suc run2 by blast
    then show ?thesis
      using s1(2,3) by (auto simp: post_sb_def post_fw_def frame_def stopSoftBrake_frame)
  qed
  have sb: "post_sb s s'" if inv: "motor_inv s" and run: "startSoftBrake (Suc n) s = Some (Inr s')" for s s'
  proof -
    have hz: "soft_hz s \<noteq> 0"
      using run by (cases "soft_hz s = 0") (simp_all add: startSoftBrake.simps recompute_zero_hz)
    let ?lv = "level_of (soft_brake_pwm s)"
    let ?s1 = "s\<lparr>soft_level := ?lv,
                 soft_us_brake := floor_phase (raw_brake (soft_hz s) ?lv),
                 soft_us_coast := floor_phase (raw_coast (soft_hz s) ?lv)\<rparr>"
    have inv1: "motor_inv ?s1" using inv by (simp add: motor_inv_def)
    consider (low) "?lv \<le> f32 (1 / 1000)"
      | (high) "\<not> ?lv \<le> f32 (1 / 1000)" "f32 (999 / 1000) \<le> ?lv"
      | (mid) "f32 (1 / 1000) < ?lv" "?lv < f32 (999 / 1000)"
      by linarith
    then show ?thesis
    proof cases
      case low
      then have "setFreewheel n (stopSoftBrake ?s1) = Some (Inr s')"
        using run by (simp add: startSoftBrake_Suc[OF hz] Let_def)
      moreover have "motor_inv (stopSoftBrake ?s1)" using stopSoftBrake_inv[OF inv1] by simp
      ultimately have "post_fw (stopSoftBrake ?s1) s'" using Suc by blast
      then show ?thesis
        by (auto simp: post_fw_def post_sb_def frame_def stopSoftBrake_frame stopSoftBrake_log)
    next
      case high
      then have "s' = writeAB 100 100 (setEnable True (stopSoftBrake ?s1))"
        using run by (simp add: startSoftBrake_Suc[OF hz] Let_def)
      then have "post_fw ?s1 s'" using hard_brake_post[OF inv1] by simp
      then show ?thesis by (auto simp: post_fw_def post_sb_def frame_def)
    next
      case mid
      let ?s2 = "s\<lparr>soft_level := ?lv, soft_us_brake := raw_brake (soft_hz s) ?lv,
                      soft_us_coast := raw_coast (soft_hz s) ?lv\<rparr>"
      show ?thesis
      proof (cases "soft_active s")
        case True
        then have "s' = ?s2"
          using run mid by (simp add: startSoftBrake_Suc[OF hz] Let_def)
        then show ?thesis using inv True mid
          by (auto simp: post_sb_def motor_inv_def frame_def outcome_def dither_outcome_def
              split: option.splits)
      next
        case False
        let ?s3 = "writeAB 0 0 (?s2\<lparr>soft_phase := Coast, soft_active := True\<rparr>)"
        let ?d = "max kMinPhaseUs (raw_coast (soft_hz s) ?lv)"
        let ?s4 = "?s3\<lparr>timer_armed := Some ?d, hw_log := hw_log ?s3 @ [TimerStartOnce ?d]\<rparr>"
        have idle: "soft_timer s" "timer_armed s = None" using inv False by (auto simp: motor_inv_def)
        have "scheduleNextPhase ?s3 = Inr ?s4"
          using idle by (subst schedule_arms) (simp_all add: writeAB_def)
        then have "s' = ?s4"
          using run mid False by (simp add: startSoftBrake_Suc[OF hz] Let_def applyPhase_def)
        then show ?thesis using idle mid
          by (auto simp: post_sb_def motor_inv_def frame_def outcome_def dither_outcome_def
              writeAB_def)
      qed
    qed
  qed
  show ?case using fw sb by blast
qed

subsection \<open>Where the recursion returns\<close>

lemma level_of_above:
  assumes "2 \<le> uint pwm"
  shows "f32 (1 / 1000) < level_of (pwm :: 16 word)"
proof -
  let ?x = "real (unat pwm) / real_of_int kPwmMaxInput"
  have iu: "int (unat pwm) = uint pwm" by simp
  then have u: "2 \<le> unat pwm" using assms by linarith
  have "uint pwm < 65536" using uint_bounded[of pwm] by simp
  then have u2: "unat pwm < 65536" using iu by linarith
  have r: "2 \<le> real (unat pwm)" "real (unat pwm) < 65536" using u u2 by linarith+
  have lo: "2 / 1023 \<le> ?x" using r(1) by (simp add: kPwmMaxInput_val divide_right_mono)
  have hi: "?x < 128" using r(2) by (simp add: kPwmMaxInput_val)
  have p1: "(2::real) powi (- int 149) \<le> 2 / 1023"
  proof -
    have "(2::real) powi (- int 149) \<le> 2 powi (- 10)"
      by (intro power_int_increasing) simp_all
    also have "\<dots> \<le> 2 / 1023" by simp
    finally show ?thesis .
  qed
  have p2: "?x < 2 powi (int 149 + 1)"
  proof -
    have "(128::real) = 2 powi 7" by simp
    also have "\<dots> \<le> 2 powi (int 149 + 1)"
      by (intro power_int_increasing) simp_all
    finally show ?thesis using hi by linarith
  qed
  have "fl 24 149 (2 / 1023) \<le> fl 24 149 ?x"
    by (rule fl_mono_pos[OF _ lo p1 p2]) simp_all
  moreover have "f32 (2 / 1023) = 1049601 / 536870912" by (simp add: fl_eval)
  ultimately have "1049601 / 536870912 \<le> f32 ?x" by (simp add: f32_def)
  then show ?thesis by (simp add: level_of_def clamp_def low_cutoff_val)
qed

lemma startSoftBrake_direct:
  assumes inv: "motor_inv s" and hz: "soft_hz s \<noteq> 0" and lv: "f32 (1 / 1000) < level_of (soft_brake_pwm s)"
  shows "\<exists>s'. startSoftBrake (Suc n) s = Some (Inr s')"
proof (cases "f32 (999 / 1000) \<le> level_of (soft_brake_pwm s)")
  case True
  then show ?thesis using lv by (simp add: startSoftBrake_Suc[OF hz] Let_def)
next
  case False
  then have "level_of (soft_brake_pwm s) < f32 (999 / 1000)" by simp
  then show ?thesis using startSoftBrake_engages[OF hz inv lv, of n] by blast
qed

lemma setFreewheel_returns:
  assumes inv: "motor_inv s" and ok: "returns_ok s"
  shows "\<exists>s'. setFreewheel (Suc (Suc n)) s = Some (Inr s')"
proof (cases "freewheel_mode (beh s)")
  case HiZ
  then show ?thesis by (simp add: setFreewheel.simps Let_def stopSoftBrake_frame)
next
  case HiZ_Awake
  then show ?thesis by (simp add: setFreewheel.simps Let_def stopSoftBrake_frame)
next
  case DitherBrake
  let ?s1 = "stopSoftBrake s"
  let ?s2 = "?s1\<lparr>soft_brake_pwm := word_of_int (clamp (uint (dither_pwm (beh ?s1))) 0 kPwmMaxInput)\<rparr>"
  have s1: "motor_inv ?s1" "\<not> soft_active ?s1"
    using stopSoftBrake_inv[OF inv] by (simp_all add: quiet_iff)
  have set: "setSoftBrakePWM (dither_pwm (beh ?s1)) ?s1 = Inr ?s2"
    using s1(2) by (simp add: setSoftBrakePWM_def Let_def)
  have d: "soft_hz s \<noteq> 0" "2 \<le> uint (dither_pwm (beh s))"
    using ok DitherBrake by (simp_all add: returns_ok_def)
  have "uint (soft_brake_pwm ?s2) = clamp (uint (dither_pwm (beh s))) 0 kPwmMaxInput"
    by (simp add: clamp_pwm_uint stopSoftBrake_frame)
  then have "2 \<le> uint (soft_brake_pwm ?s2)"
    using d(2) by (simp add: clamp_def kPwmMaxInput_val)
  then have lv: "f32 (1 / 1000) < level_of (soft_brake_pwm ?s2)" by (rule level_of_above)
  have inv2: "motor_inv ?s2" using s1(1) by (simp add: motor_inv_def)
  have hz2: "soft_hz ?s2 \<noteq> 0" using d(1) by (simp add: stopSoftBrake_frame)
  from startSoftBrake_direct[OF inv2 hz2 lv, of n]
  obtain s' where "startSoftBrake (Suc n) ?s2 = Some (Inr s')" by blast
  then show ?thesis
    using DitherBrake set by (simp add: setFreewheel.simps Let_def stopSoftBrake_frame)
qed

lemma startSoftBrake_returns:
  assumes inv: "motor_inv s" and hz: "soft_hz s \<noteq> 0"
    and ok: "2 \<le> uint (soft_brake_pwm s) \<or> returns_ok s"
  shows "\<exists>s'. startSoftBrake (Suc (Suc (Suc n))) s = Some (Inr s')"
proof (cases "f32 (1 / 1000) < level_of (soft_brake_pwm s)")
  case True
  then show ?thesis using startSoftBrake_direct[OF inv hz] by blast
next
  case False
  then have low: "level_of (soft_brake_pwm s) \<le> f32 (1 / 1000)" by simp
  then have "\<not> 2 \<le> uint (soft_brake_pwm s)" using level_of_above[of "soft_brake_pwm s"] by linarith
  then have r: "returns_ok s" using ok by blast
  let ?lv = "level_of (soft_brake_pwm s)"
  let ?s1 = "s\<lparr>soft_level := ?lv,
               soft_us_brake := floor_phase (raw_brake (soft_hz s) ?lv),
               soft_us_coast := floor_phase (raw_coast (soft_hz s) ?lv)\<rparr>"
  have inv1: "motor_inv (stopSoftBrake ?s1)"
    using inv by (intro conjunct1[OF stopSoftBrake_inv]) (simp add: motor_inv_def)
  have r1: "returns_ok (stopSoftBrake ?s1)"
    using r by (simp add: returns_ok_def stopSoftBrake_frame)
  from setFreewheel_returns[OF inv1 r1, of n]
  show ?thesis using low by (simp add: startSoftBrake_Suc[OF hz] Let_def)
qed

subsection \<open>Mode changes stop the timer first\<close>

lemma enables_stop [simp]: "enables v (stopSoftBrake s) = enables v s"
  by (simp add: enables_def stopSoftBrake_def)

lemma soft_active_setEnable [simp]: "soft_active (setEnable v s) = soft_active s"
  by (simp add: setEnable_def)

lemma soft_active_writeAB [simp]: "soft_active (writeAB a b s) = soft_active s"
  by (simp add: writeAB_def)

lemma setHardBrake_effect:
  assumes "motor_inv s"
  shows "hw_log (setHardBrake s) = hw_log s @ stops s @ enables True s
            @ [McpwmSetDuty MCPWM_OPR_A 100, McpwmSetDuty MCPWM_OPR_B 100]
       \<and> quiet (setHardBrake s) \<and> motor_inv (setHardBrake s)
       \<and> duty_A (setHardBrake s) = 100 \<and> duty_B (setHardBrake s) = 100"
  using assms
  by (auto simp: setHardBrake_def writeAB_def setEnable_def stopSoftBrake_def stops_def
      enables_def quiet_iff motor_inv_def)

lemma setSpeed_drive_effect:
  assumes "motor_inv s" and "clamp speed 0 kPwmMaxInput \<noteq> 0"
  shows "\<exists>s'. setSpeed n speed dir s = Some (Inr s') \<and> quiet s' \<and> motor_inv s'
            \<and> hw_log s' = hw_log s @ stops s @ enables True s
                 @ [McpwmSetDuty MCPWM_OPR_A (duty_A s'), McpwmSetDuty MCPWM_OPR_B (duty_B s')]"
  using assms(1) setSpeed_drive[OF assms(2), of n dir s]
  by (cases dir)
     (auto simp: writeAB_def setEnable_def stopSoftBrake_def stops_def enables_def quiet_iff
        motor_inv_def)

lemma setFreewheel_effect:
  assumes "motor_inv s" and "setFreewheel n s = Some (Inr s')"
  shows "motor_inv s'
       \<and> (\<exists>rest. hw_log s' = hw_log s @ stops s @ rest
              \<and> (\<forall>d. timer_armed s' = Some d \<longrightarrow> TimerStartOnce d \<in> set rest))
       \<and> (freewheel_mode (beh s) \<noteq> DitherBrake \<longrightarrow> quiet s')
       \<and> (\<not> soft_active s' \<longrightarrow> quiet s')"
proof -
  have p: "post_fw s s'" using outcomes_aux[of n] assms by blast
  then have inv: "motor_inv s'" by (simp add: post_fw_def)
  have q: "\<not> soft_active s' \<longrightarrow> quiet s'" using inv by (auto simp: quiet_iff motor_inv_def)
  have "freewheel_mode (beh s) \<noteq> DitherBrake \<longrightarrow> \<not> soft_active s'"
  proof
    assume m: "freewheel_mode (beh s) \<noteq> DitherBrake"
    obtain k where n: "n = Suc k" using assms(2) by (cases n) simp_all
    show "\<not> soft_active s'"
      using assms(2) m unfolding n
      by (cases "freewheel_mode (beh s)")
         (auto simp: setFreewheel.simps Let_def stopSoftBrake_frame)
  qed
  then show ?thesis using p inv q by (auto simp: post_fw_def)
qed

text \<open>
  Claim C5, in the sequential model (a callback that is already running when the timer is
  stopped is outside it). In a state of the invariant a timer is pending exactly when the
  cycle is active. \<^verbatim>\<open>stopSoftBrake\<close> logs the stop of the timer when the cycle was active
  and leaves no timer pending. \<^verbatim>\<open>setHardBrake\<close>, \<^verbatim>\<open>setSpeed\<close> with a nonzero clamped
  speed and \<^verbatim>\<open>setFreewheel\<close> make that stop their first call to the platform, before
  the enable line and the duties are written. After the first two, and after
  \<^verbatim>\<open>setFreewheel\<close> in the modes \<open>HiZ\<close> and \<open>HiZ_Awake\<close>, no timer is pending and a firing
  of the timer changes nothing. After \<^verbatim>\<open>setFreewheel\<close> in mode \<open>DitherBrake\<close> a pending
  timer is one that this call armed after the stop, for the cycle it started.
\<close>

theorem mode_change_stops_timer_first:
  assumes "motor_inv s"
  shows "soft_active s = (timer_armed s \<noteq> None)
       \<and> quiet (stopSoftBrake s) \<and> motor_inv (stopSoftBrake s)
       \<and> hw_log (stopSoftBrake s) = hw_log s @ stops s
       \<and> hw_log (setHardBrake s) = hw_log s @ stops s @ enables True s
            @ [McpwmSetDuty MCPWM_OPR_A 100, McpwmSetDuty MCPWM_OPR_B 100]
       \<and> quiet (setHardBrake s) \<and> motor_inv (setHardBrake s)
       \<and> (clamp speed 0 kPwmMaxInput \<noteq> 0 \<longrightarrow>
            (\<exists>s'. setSpeed n speed dir s = Some (Inr s') \<and> quiet s' \<and> motor_inv s'
               \<and> hw_log s' = hw_log s @ stops s @ enables True s
                    @ [McpwmSetDuty MCPWM_OPR_A (duty_A s'), McpwmSetDuty MCPWM_OPR_B (duty_B s')]))
       \<and> (\<forall>s'. setFreewheel n s = Some (Inr s') \<longrightarrow>
            motor_inv s'
            \<and> (\<exists>rest. hw_log s' = hw_log s @ stops s @ rest
                   \<and> (\<forall>d. timer_armed s' = Some d \<longrightarrow> TimerStartOnce d \<in> set rest))
            \<and> (freewheel_mode (beh s) \<noteq> DitherBrake \<longrightarrow> quiet s')
            \<and> (\<not> soft_active s' \<longrightarrow> quiet s'))
       \<and> (freewheel_mode (beh s) \<noteq> DitherBrake \<longrightarrow>
            (\<exists>s'. setFreewheel (Suc n) s = Some (Inr s')))"
proof -
  have a: "soft_active s = (timer_armed s \<noteq> None)" using assms by (simp add: motor_inv_def)
  have b: "quiet (stopSoftBrake s) \<and> motor_inv (stopSoftBrake s)"
    using stopSoftBrake_inv[OF assms] by simp
  have c: "freewheel_mode (beh s) \<noteq> DitherBrake \<longrightarrow> (\<exists>s'. setFreewheel (Suc n) s = Some (Inr s'))"
    by (cases "freewheel_mode (beh s)") (simp_all add: setFreewheel.simps Let_def stopSoftBrake_frame)
  show ?thesis
    using a b c stopSoftBrake_log[of s] setHardBrake_effect[OF assms]
      setSpeed_drive_effect[OF assms, of speed n dir] setFreewheel_effect[OF assms, of n]
    by blast
qed


lemma dithering_inv: "motor_inv dithering_motor"
  by (simp add: motor_inv_def dithering_motor_def motor_eval)

lemma dithering_hard_brake: "setHardBrake dithering_motor = hard_braked_motor"
  by (simp add: setHardBrake_def hard_braked_motor_def dithering_motor_def motor_eval)

lemma dithering_freewheel: "setFreewheel 1 dithering_motor = Some (Inr freewheeled_motor)"
  by (simp add: setFreewheel.simps freewheeled_motor_def dithering_motor_def motor_eval)

theorem mode_change_stops_timer_first_witness:
  "motor_inv dithering_motor
   \<and> timer_armed dithering_motor = Some 3171
   \<and> stops dithering_motor = [TimerStop]
   \<and> enables True dithering_motor = []
   \<and> setHardBrake dithering_motor = hard_braked_motor
   \<and> hw_log hard_braked_motor = hw_log dithering_motor @
        [TimerStop, McpwmSetDuty MCPWM_OPR_A 100, McpwmSetDuty MCPWM_OPR_B 100]
   \<and> quiet hard_braked_motor
   \<and> timer_fires hard_braked_motor = Inr hard_braked_motor
   \<and> clamp 2000 0 kPwmMaxInput \<noteq> 0
   \<and> setSpeed 1 2000 CW dithering_motor = Some (Inr driving_motor)
   \<and> hw_log driving_motor = hw_log dithering_motor @
        [TimerStop, McpwmSetDuty MCPWM_OPR_A 100, McpwmSetDuty MCPWM_OPR_B 0]
   \<and> quiet driving_motor
   \<and> timer_fires driving_motor = Inr driving_motor
   \<and> freewheel_mode (beh dithering_motor) \<noteq> DitherBrake
   \<and> setFreewheel 1 dithering_motor = Some (Inr freewheeled_motor)
   \<and> hw_log freewheeled_motor = hw_log dithering_motor @
        [TimerStop, DigitalWrite 39 False, McpwmSetDuty MCPWM_OPR_A 0, McpwmSetDuty MCPWM_OPR_B 0]
   \<and> quiet freewheeled_motor
   \<and> timer_fires freewheeled_motor = Inr freewheeled_motor"
proof -
  have ne: "clamp 2000 0 kPwmMaxInput \<noteq> 0" by (simp add: clamp_def kPwmMaxInput_val)
  have drive: "setSpeed 1 2000 CW dithering_motor = Some (Inr driving_motor)"
  proof -
    have c: "clamp 2000 0 kPwmMaxInput = 1023" by (simp add: clamp_def kPwmMaxInput_val)
    show ?thesis
      unfolding setSpeed_drive[OF ne] c drive_duty_full
      by (simp add: driving_motor_def dithering_motor_def motor_eval)
  qed
  note inst = mode_change_stops_timer_first[OF dithering_inv, of 2000 1 CW]
  have q1: "quiet hard_braked_motor" using inst dithering_hard_brake by simp
  have md: "freewheel_mode (beh dithering_motor) \<noteq> DitherBrake"
    by (simp add: dithering_motor_def motor_eval)
  have q2: "quiet freewheeled_motor" using inst dithering_freewheel md by blast
  from inst ne obtain s' where "setSpeed 1 2000 CW dithering_motor = Some (Inr s')" "quiet s'"
    by blast
  with drive have q3: "quiet driving_motor" by simp
  have logs: "timer_armed dithering_motor = Some 3171" "stops dithering_motor = [TimerStop]"
    "enables True dithering_motor = []"
    "hw_log hard_braked_motor = hw_log dithering_motor @
        [TimerStop, McpwmSetDuty MCPWM_OPR_A 100, McpwmSetDuty MCPWM_OPR_B 100]"
    "hw_log driving_motor = hw_log dithering_motor @
        [TimerStop, McpwmSetDuty MCPWM_OPR_A 100, McpwmSetDuty MCPWM_OPR_B 0]"
    "hw_log freewheeled_motor = hw_log dithering_motor @
        [TimerStop, DigitalWrite 39 False, McpwmSetDuty MCPWM_OPR_A 0, McpwmSetDuty MCPWM_OPR_B 0]"
    by (simp_all add: stops_def enables_def hard_braked_motor_def driving_motor_def
        freewheeled_motor_def dithering_motor_def motor_eval)
  show ?thesis
    using dithering_inv dithering_hard_brake dithering_freewheel drive ne q1 q2 q3 md logs
    by (simp add: quiet_def)
qed

subsection \<open>Zero speed\<close>

text \<open>
  With a clamped speed of 0, \<^verbatim>\<open>setSpeed\<close> is \<^verbatim>\<open>startSoftBrake\<close>: it writes no
  drive duty. When the call returns the driver freewheels as its mode prescribes, brakes
  hard, or dithers with its timer armed; and it returns within three nested calls unless
  the frequency is zero or the configuration is the one of the next theorem.
\<close>

lemma setSpeed_zero_outcome:
  assumes "clamp speed 0 kPwmMaxInput = 0" and "motor_inv s"
  shows "setSpeed n speed dir s = startSoftBrake n s
       \<and> (\<forall>s'. setSpeed n speed dir s = Some (Inr s') \<longrightarrow>
             motor_inv s' \<and> (freewheel_outcome s' \<or> hard_brake_outcome s' \<or> dither_outcome s'))
       \<and> (soft_hz s \<noteq> 0 \<and> (2 \<le> uint (soft_brake_pwm s) \<or> returns_ok s) \<longrightarrow>
             (\<exists>s'. setSpeed (Suc (Suc (Suc n))) speed dir s = Some (Inr s')))"
proof -
  have eq: "setSpeed m speed dir s = startSoftBrake m s" for m
    using assms(1) by (rule setSpeed_zero)
  have "post_sb s s'" if "startSoftBrake n s = Some (Inr s')" for s'
    using outcomes_aux[of n] assms(2) that by blast
  then have out: "\<forall>s'. startSoftBrake n s = Some (Inr s') \<longrightarrow>
      motor_inv s' \<and> (freewheel_outcome s' \<or> hard_brake_outcome s' \<or> dither_outcome s')"
    by (auto simp: post_sb_def outcome_def)
  have ret: "soft_hz s \<noteq> 0 \<and> (2 \<le> uint (soft_brake_pwm s) \<or> returns_ok s) \<longrightarrow>
             (\<exists>s'. startSoftBrake (Suc (Suc (Suc n))) s = Some (Inr s'))"
    using startSoftBrake_returns[OF assms(2), of n] by blast
  show ?thesis using out ret by (simp only: eq)
qed

text \<open>
  Claim C3 fails on the code in one configuration. With freewheel mode \<open>DitherBrake\<close>, a
  dither duty of 0 or 1, a requested soft-brake duty of 0 or 1 and a nonzero frequency,
  \<^verbatim>\<open>setSpeed\<close> with a clamped speed of 0 enters the recursion between
  \<^verbatim>\<open>startSoftBrake\<close> and \<^verbatim>\<open>setFreewheel\<close> and returns within no bound on the nesting: it
  reaches neither freewheel, nor hard brake, nor an active dither cycle.
\<close>

theorem setSpeed_zero_never_returns:
  assumes "clamp speed 0 kPwmMaxInput = 0"
    and "freewheel_mode (beh s) = DitherBrake" and "uint (dither_pwm (beh s)) \<le> 1"
    and "uint (soft_brake_pwm s) \<le> 1" and "soft_hz s \<noteq> 0"
  shows "setSpeed n speed dir s = None"
  using assms diverges_aux[of n] by (simp add: setSpeed_zero stuck_def)

lemma stuck_motor_reached: "setSoftBrakePWM 0 (motor_with dither_zero) = Inr stuck_motor"
  by (simp add: setSoftBrakePWM_def stuck_motor_def motor_with_def clamp_def kPwmMaxInput_val
      motor_eval)

theorem setSpeed_zero_never_returns_witness:
  "setup_cfg_beh all_ok DRIVE_MCPWM dither_zero HBridgeMotor_new = Inr (motor_with dither_zero)
   \<and> setSoftBrakePWM 0 (motor_with dither_zero) = Inr stuck_motor
   \<and> clamp 0 0 kPwmMaxInput = 0
   \<and> freewheel_mode (beh stuck_motor) = DitherBrake
   \<and> uint (dither_pwm (beh stuck_motor)) \<le> 1
   \<and> uint (soft_brake_pwm stuck_motor) \<le> 1
   \<and> soft_hz stuck_motor \<noteq> 0
   \<and> (\<forall>n. setSpeed n 0 CW stuck_motor = None)"
proof -
  have a: "clamp 0 0 kPwmMaxInput = 0" by (simp add: clamp_def kPwmMaxInput_val)
  have b: "freewheel_mode (beh stuck_motor) = DitherBrake"
    and c: "uint (dither_pwm (beh stuck_motor)) \<le> 1"
    and d: "uint (soft_brake_pwm stuck_motor) \<le> 1"
    and e: "soft_hz stuck_motor \<noteq> 0"
    by (simp_all add: stuck_motor_def motor_with_def dither_zero_def)
  have "setSpeed n 0 CW stuck_motor = None" for n
    by (rule setSpeed_zero_never_returns[OF a b c d e])
  then show ?thesis using a b c d e setup_motor_with[of dither_zero] stuck_motor_reached by simp
qed

subsection \<open>The invariant holds after setup and is kept by every operation\<close>

lemma motor_inv_setup:
  assumes "setup_cfg_beh r cfg b HBridgeMotor_new = Inr s'"
  shows "motor_inv s'"
  using assms
  by (auto simp: setup_cfg_beh_def HBridgeMotor_new_def motor_inv_def setEnable_def Let_def
      split: if_splits)

lemma motor_inv_setSoftBrakePWM:
  assumes "motor_inv s" and "setSoftBrakePWM pwm s = Inr s'"
  shows "motor_inv s'"
proof (cases "soft_active s")
  case True
  then have hz: "soft_hz s \<noteq> 0"
    using assms(2) by (cases "soft_hz s = 0") (simp_all add: setSoftBrakePWM_def Let_def recompute_zero_hz)
  show ?thesis
    using assms True by (auto simp: setSoftBrakePWM_def Let_def recompute_eq hz motor_inv_def)
next
  case False
  then show ?thesis using assms by (auto simp: setSoftBrakePWM_def Let_def motor_inv_def)
qed

lemma motor_inv_timer_fires:
  assumes "motor_inv s"
  shows "\<exists>s'. timer_fires s = Inr s' \<and> motor_inv s'"
proof (cases "timer_armed s")
  case None
  then show ?thesis using assms by (simp add: timer_fires_def)
next
  case (Some d)
  then have act: "soft_active s" "soft_timer s" using assms by (simp_all add: motor_inv_def)
  show ?thesis
    using Some act
    by (cases "soft_phase s")
       (simp_all add: timer_fires_def softBrakeISR_def applyPhase_def scheduleNextPhase_def
          writeAB_def setEnable_def motor_inv_def Let_def)
qed

end
